theory Spec2Isabelle
  imports Main "HOL-Library.AList"
begin

section \<open>Strings and small helpers\<close>

text \<open>
  A source string is modelled as a \<^typ>\<open>string\<close>, one list element per UTF-16 code unit.
  The operations the handlers use on strings (\<open>length\<close>, \<open>substring\<close>, \<open>includes\<close>,
  \<open>startsWith\<close>, concatenation, equality, \<open>join\<close>) treat the units uniformly.
\<close>

definition newline :: string where
  "newline = [CHR 0x0A]"

definition dquote :: string where
  "dquote = [CHR 0x22]"

text \<open>\<open>Array.prototype.join(sep)\<close> on an array of strings.\<close>

fun join_with :: "string \<Rightarrow> string list \<Rightarrow> string" where
  "join_with sep [] = []"
| "join_with sep [x] = x"
| "join_with sep (x # y # ys) = x @ sep @ join_with sep (y # ys)"

text \<open>\<open>String.prototype.startsWith\<close> and \<open>String.prototype.includes\<close>.\<close>

fun startsWith :: "string \<Rightarrow> string \<Rightarrow> bool" where
  "startsWith s [] = True"
| "startsWith [] (c # cs) = False"
| "startsWith (x # xs) (c # cs) = (x = c \<and> startsWith xs cs)"

fun str_includes :: "string \<Rightarrow> string \<Rightarrow> bool" where
  "str_includes [] needle = (needle = [])"
| "str_includes (x # xs) needle = (startsWith (x # xs) needle \<or> str_includes xs needle)"

text \<open>\<open>String.prototype.substring(0, n)\<close> for \<open>n\<close> a non-negative integer.\<close>

definition substring0 :: "string \<Rightarrow> nat \<Rightarrow> string" where
  "substring0 s n = take n s"

text \<open>
  Decimal rendering of an integer, as a template literal renders an integer-valued number
  of magnitude below \<open>10^21\<close>. From \<open>10^21\<close> on a template literal prints exponent notation;
  such numbers are outside this model, and port numbers are far below them.
\<close>

definition digit_char :: "nat \<Rightarrow> char" where
  "digit_char d = ''0123456789'' ! d"

function show_nat :: "nat \<Rightarrow> string" where
  "show_nat n = (if n < 10 then [digit_char n] else show_nat (n div 10) @ [digit_char (n mod 10)])"
  by pat_completeness auto
termination
  by (relation "measure id") auto

definition show_int :: "int \<Rightarrow> string" where
  "show_int i = (if i < 0 then ''-'' @ show_nat (nat (- i)) else show_nat (nat i))"


section \<open>Data model (types.ts, index.ts)\<close>

record IRCServer =
  srv_host :: string
  srv_port :: int
  ssl :: "bool option"

record IRCProfile =
  server :: string
  prof_nick :: string
  username :: "string option"
  realname :: "string option"
  prof_channels :: "string list"
  nickservPass :: "string option"
  autoConnect :: "bool option"
  agentsFile :: "string option"

record IRCConfig =
  servers :: "string \<rightharpoonup> IRCServer"
  profiles :: "string \<rightharpoonup> IRCProfile"

record IRCState =
  connected :: bool
  host :: string
  port :: int
  nick :: string
  channels :: "string list"
  profileName :: "string option"

text \<open>
  A timer callback: the \<open>flushBuffer\<close> closure of the \<open>message\<close> handler, which closes over
  \<open>bufferKey\<close>, \<open>isDM\<close> and the buffer, or the closure calling \<open>flushEventBuffer\<close> with
  \<open>bufferKey\<close> and the buffer. The buffer object a closure holds is the entry stored under
  its key for as long as the timeout is pending, since an entry is only ever removed by its
  own flush; the callback is therefore given by the key.
\<close>

datatype callback = FlushMessage string bool | FlushEvent string

text \<open>A pending timeout: its handle, the time at which it fires, and its callback.\<close>

record timer =
  tid :: nat
  due :: nat
  callback :: callback

text \<open>
  The \<open>timer\<close> field of a buffer is \<open>null\<close> (\<open>None\<close>) or the handle \<open>setTimeout\<close> returned,
  which stays in the field after the timeout has fired.
\<close>

record MessageBuffer =
  mb_nick :: string
  mb_target :: string
  messages :: "string list"
  mb_timer :: "nat option"

record EventBuffer =
  eb_channel :: string
  events :: "string list"
  eb_timer :: "nat option"

definition MESSAGE_BUFFER_DELAY_MS :: nat where
  "MESSAGE_BUFFER_DELAY_MS = 1000"

definition EVENT_BUFFER_DELAY_MS :: nat where
  "EVENT_BUFFER_DELAY_MS = 2000"

text \<open>Calls made on the IRC client library; a client object is identified by a number.\<close>

datatype transport_call =
    NewClient nat
  | ConnectCall nat string int string
  | QuitCall nat "string option"
  | JoinCall nat string

text \<open>Calls made on the agent messaging API.\<close>

datatype message_details =
    ChannelMessageDetails string string string
  | JoinPartDetails string "string list"

record custom_message =
  customType :: string
  content :: string
  display :: bool
  msg_details :: message_details

datatype pi_call =
    SendUserMessage string string
  | SendMessage custom_message bool

text \<open>
  The module-level variables of the extension, the two buffer maps (a JavaScript \<open>Map\<close>,
  kept in insertion order), the pending timeouts in the order they were scheduled, and the
  calls issued so far. Status-bar and notification calls change none of these and are left
  out.
\<close>

record state =
  ircClient :: "nat option"
  currentState :: "IRCState option"
  cachedAgentsContent :: "string option"
  messageBuffers :: "(string \<times> MessageBuffer) list"
  eventBuffers :: "(string \<times> EventBuffer) list"
  timers :: "timer list"
  timers_made :: nat
  transport :: "transport_call list"
  sent :: "pi_call list"
  clients_made :: nat

datatype error = TypeError


section \<open>Inbound event handlers (setupClient)\<close>

text \<open>
  \<open>setTimeout(callback, delay)\<close> called at time \<open>now\<close> returns a fresh handle;
  \<open>clearTimeout(handle)\<close> cancels the timeout with that handle if it is still pending.
\<close>

definition setTimeout :: "callback \<Rightarrow> nat \<Rightarrow> nat \<Rightarrow> state \<Rightarrow> nat \<times> state" where
  "setTimeout cb delay now st =
     (timers_made st,
      st\<lparr>timers := timers st @ [\<lparr>tid = timers_made st, due = now + delay, callback = cb\<rparr>],
         timers_made := Suc (timers_made st)\<rparr>)"

definition clearTimeout :: "nat \<Rightarrow> state \<Rightarrow> state" where
  "clearTimeout h st = st\<lparr>timers := filter (\<lambda>tm. tid tm \<noteq> h) (timers st)\<rparr>"

definition bufferKey :: "string \<Rightarrow> string \<Rightarrow> string" where
  "bufferKey target nk = target @ '':'' @ nk"

text \<open>
  The \<open>message\<close> handler: look the buffer up (creating it when absent), clear the timeout
  its \<open>timer\<close> field holds, push the line, and set a timeout of \<open>MESSAGE_BUFFER_DELAY_MS\<close>
  whose handle goes into the \<open>timer\<close> field.
\<close>

definition on_message :: "nat \<Rightarrow> string \<Rightarrow> string \<Rightarrow> string \<Rightarrow> state \<Rightarrow> state" where
  "on_message now target nk msg st =
     (case currentState st of
        None \<Rightarrow> st
      | Some cs \<Rightarrow>
          let is_dm = (target = nick cs);
              key = bufferKey target nk;
              buffer = (case map_of (messageBuffers st) key of
                          None \<Rightarrow> \<lparr>mb_nick = nk, mb_target = target, messages = [], mb_timer = None\<rparr>
                        | Some b \<Rightarrow> b);
              st1 = (case mb_timer buffer of None \<Rightarrow> st | Some h \<Rightarrow> clearTimeout h st)
          in case setTimeout (FlushMessage key is_dm) MESSAGE_BUFFER_DELAY_MS now st1 of
               (h', st2) \<Rightarrow>
                 st2\<lparr>messageBuffers :=
                       AList.update key
                         (buffer\<lparr>messages := messages buffer @ [msg], mb_timer := Some h'\<rparr>)
                         (messageBuffers st2)\<rparr>)"

text \<open>
  \<open>flushBuffer\<close>, the timer callback of a message buffer. Reading \<open>currentState!.nick\<close>
  when \<open>currentState\<close> is \<open>null\<close> throws before anything is sent or deleted.
\<close>

definition flushBuffer :: "string \<Rightarrow> bool \<Rightarrow> MessageBuffer \<Rightarrow> state \<Rightarrow> error + state" where
  "flushBuffer key is_dm buffer st =
     (if messages buffer = [] then Inr st
      else
        let combinedMessage = join_with newline (messages buffer) in
        if is_dm then
          Inr (st\<lparr>sent := sent st @
                     [SendUserMessage (''IRC DM from '' @ mb_nick buffer @ '': '' @ combinedMessage)
                        ''steer''],
                  messageBuffers := AList.delete key (messageBuffers st)\<rparr>)
        else
          (case currentState st of
             None \<Rightarrow> Inl TypeError
           | Some cs \<Rightarrow>
               let ourNick = nick cs;
                   hasMention = str_includes combinedMessage (''@'' @ ourNick)
               in Inr (st\<lparr>sent := sent st @
                     [SendMessage
                        \<lparr>customType = ''irc_channel_message'',
                         content = ''['' @ mb_target buffer @ ''] '' @ mb_nick buffer @ '': ''
                                   @ combinedMessage,
                         display = True,
                         msg_details = ChannelMessageDetails (mb_target buffer) (mb_nick buffer)
                                         combinedMessage\<rparr>
                        hasMention],
                  messageBuffers := AList.delete key (messageBuffers st)\<rparr>)))"

text \<open>\<open>flushEventBuffer\<close>, the timer callback of a join/part buffer.\<close>

definition flushEventBuffer :: "string \<Rightarrow> EventBuffer \<Rightarrow> state \<Rightarrow> state" where
  "flushEventBuffer key buffer st =
     (if events buffer = [] then st
      else
        st\<lparr>sent := sent st @
              [SendMessage
                 \<lparr>customType = ''irc_join_part'',
                  content = join_with newline (events buffer),
                  display = True,
                  msg_details = JoinPartDetails (eb_channel buffer) (events buffer)\<rparr>
                 False],
           eventBuffers := AList.delete key (eventBuffers st)\<rparr>)"

text \<open>The buffering shared by the \<open>join\<close> and \<open>part\<close> handlers.\<close>

definition record_event :: "nat \<Rightarrow> string \<Rightarrow> string \<Rightarrow> state \<Rightarrow> state" where
  "record_event now channel line st =
     (let key = channel;
          buffer = (case map_of (eventBuffers st) key of
                      None \<Rightarrow> \<lparr>eb_channel = channel, events = [], eb_timer = None\<rparr>
                    | Some b \<Rightarrow> b);
          st1 = (case eb_timer buffer of None \<Rightarrow> st | Some h \<Rightarrow> clearTimeout h st)
      in case setTimeout (FlushEvent key) EVENT_BUFFER_DELAY_MS now st1 of
           (h', st2) \<Rightarrow>
             st2\<lparr>eventBuffers :=
                   AList.update key
                     (buffer\<lparr>events := events buffer @ [line], eb_timer := Some h'\<rparr>)
                     (eventBuffers st2)\<rparr>)"

text \<open>
  \<open>ircClient?.user.nick\<close>: \<open>undefined\<close> without a client, otherwise the nick the library
  reports for the client, which is passed in as \<open>user_nick\<close>.
\<close>

definition client_user_nick :: "string \<Rightarrow> state \<Rightarrow> string option" where
  "client_user_nick user_nick st = (case ircClient st of None \<Rightarrow> None | Some c \<Rightarrow> Some user_nick)"

definition on_join :: "bool \<Rightarrow> string \<Rightarrow> nat \<Rightarrow> string \<Rightarrow> string \<Rightarrow> state \<Rightarrow> state" where
  "on_join hasUI user_nick now nk channel st =
     (if hasUI \<and> Some nk = client_user_nick user_nick st then st
      else if Some nk \<noteq> client_user_nick user_nick st
        then record_event now channel (nk @ '' joined '' @ channel) st
      else st)"

definition on_part :: "string \<Rightarrow> nat \<Rightarrow> string \<Rightarrow> string \<Rightarrow> state \<Rightarrow> state" where
  "on_part user_nick now nk channel st =
     (if Some nk \<noteq> client_user_nick user_nick st
        then record_event now channel (nk @ '' left '' @ channel) st
      else st)"

text \<open>The \<open>registered\<close>, \<open>close\<close> and \<open>nick\<close> handlers.\<close>

definition on_registered :: "state \<Rightarrow> error + state" where
  "on_registered st =
     (case currentState st of
        None \<Rightarrow> Inr st
      | Some cs \<Rightarrow>
          let st1 = st\<lparr>currentState := Some (cs\<lparr>connected := True\<rparr>)\<rparr> in
          (case channels cs of
             [] \<Rightarrow> Inr st1
           | ch # chs \<Rightarrow>
               (case ircClient st1 of
                  None \<Rightarrow> Inl TypeError
                | Some c \<Rightarrow> Inr (st1\<lparr>transport := transport st1 @ map (JoinCall c) (channels cs)\<rparr>))))"

definition on_close :: "state \<Rightarrow> state" where
  "on_close st =
     (case currentState st of
        None \<Rightarrow> st
      | Some cs \<Rightarrow> st\<lparr>currentState := Some (cs\<lparr>connected := False\<rparr>)\<rparr>)"

definition on_nick :: "string \<Rightarrow> string \<Rightarrow> state \<Rightarrow> state" where
  "on_nick old_nick new_nick st =
     (case currentState st of
        None \<Rightarrow> st
      | Some cs \<Rightarrow>
          if old_nick = nick cs then st\<lparr>currentState := Some (cs\<lparr>nick := new_nick\<rparr>)\<rparr> else st)"


section \<open>Timers\<close>

text \<open>
  A timeout fires: it is no longer pending, and its callback runs on the buffer stored
  under its key. While the bookkeeping invariant \<open>timers_ok\<close> below holds, that buffer
  exists and is the one holding the handle of the timeout, so the two \<open>None\<close> branches are
  not taken by a pending timeout.
\<close>

definition fire :: "timer \<Rightarrow> state \<Rightarrow> error + state" where
  "fire tm st =
     (let st1 = st\<lparr>timers := filter (\<lambda>x. tid x \<noteq> tid tm) (timers st)\<rparr> in
      case callback tm of
        FlushMessage key is_dm \<Rightarrow>
          (case map_of (messageBuffers st1) key of
             None \<Rightarrow> Inr st1
           | Some b \<Rightarrow> flushBuffer key is_dm b st1)
      | FlushEvent key \<Rightarrow>
          (case map_of (eventBuffers st1) key of
             None \<Rightarrow> Inr st1
           | Some b \<Rightarrow> Inr (flushEventBuffer key b st1)))"

definition due_timers :: "nat \<Rightarrow> state \<Rightarrow> timer list" where
  "due_timers now st = sort_key due (filter (\<lambda>tm. due tm \<le> now) (timers st))"

fun fire_all :: "timer list \<Rightarrow> state \<Rightarrow> error + state" where
  "fire_all [] st = Inr st"
| "fire_all (tm # tms) st = (case fire tm st of Inl e \<Rightarrow> Inl e | Inr st' \<Rightarrow> fire_all tms st')"

text \<open>
  Time passes until \<open>now\<close>: every timeout due by then fires, earliest first. A flush neither
  sets nor clears a timeout, so the list of due timers is fixed beforehand.
\<close>

definition advance :: "nat \<Rightarrow> state \<Rightarrow> error + state" where
  "advance now st = fire_all (due_timers now st) st"

text \<open>
  A run of timed \<open>message\<close> events (time, payload) for one target and sender, on the single
  event queue: before an event is handled, the timers due by its time have fired.
\<close>

fun run_messages :: "string \<Rightarrow> string \<Rightarrow> (nat \<times> string) list \<Rightarrow> state \<Rightarrow> error + state" where
  "run_messages target nk [] st = Inr st"
| "run_messages target nk ((t, msg) # evs) st =
     (case advance t st of
        Inl e \<Rightarrow> Inl e
      | Inr st1 \<Rightarrow> run_messages target nk evs (on_message t target nk msg st1))"

definition run_until :: "string \<Rightarrow> string \<Rightarrow> (nat \<times> string) list \<Rightarrow> nat \<Rightarrow> state \<Rightarrow> error + state" where
  "run_until target nk evs finish st =
     (case run_messages target nk evs st of Inl e \<Rightarrow> Inl e | Inr st1 \<Rightarrow> advance finish st1)"

text \<open>The timeouts that fire in the course of such a run, in the order in which they fire.\<close>

fun run_fired :: "string \<Rightarrow> string \<Rightarrow> (nat \<times> string) list \<Rightarrow> state \<Rightarrow> timer list" where
  "run_fired target nk [] st = []"
| "run_fired target nk ((t, msg) # evs) st =
     due_timers t st
     @ (case advance t st of
          Inl e \<Rightarrow> []
        | Inr st1 \<Rightarrow> run_fired target nk evs (on_message t target nk msg st1))"

definition fired_until :: "string \<Rightarrow> string \<Rightarrow> (nat \<times> string) list \<Rightarrow> nat \<Rightarrow> state \<Rightarrow> timer list" where
  "fired_until target nk evs finish st =
     run_fired target nk evs st
     @ (case run_messages target nk evs st of Inl e \<Rightarrow> [] | Inr st1 \<Rightarrow> due_timers finish st1)"

text \<open>Each event arrives no earlier than, and strictly within the quiet interval of, the previous one.\<close>

fun within_quiet :: "nat list \<Rightarrow> bool" where
  "within_quiet (t1 # t2 # ts) = (t1 \<le> t2 \<and> t2 < t1 + MESSAGE_BUFFER_DELAY_MS \<and> within_quiet (t2 # ts))"
| "within_quiet ts = True"


text \<open>
  The buffer a timeout belongs to, the handle a buffer holds, and the timeouts pending for
  a buffer.
\<close>

datatype timer_ref = MessageTimer string | EventTimer string

fun owner :: "callback \<Rightarrow> timer_ref" where
  "owner (FlushMessage key is_dm) = MessageTimer key"
| "owner (FlushEvent key) = EventTimer key"

fun handle_of :: "state \<Rightarrow> timer_ref \<Rightarrow> nat option" where
  "handle_of st (MessageTimer key) =
     (case map_of (messageBuffers st) key of None \<Rightarrow> None | Some b \<Rightarrow> mb_timer b)"
| "handle_of st (EventTimer key) =
     (case map_of (eventBuffers st) key of None \<Rightarrow> None | Some b \<Rightarrow> eb_timer b)"

definition pending_for :: "timer_ref \<Rightarrow> state \<Rightarrow> timer list" where
  "pending_for r st = filter (\<lambda>tm. owner (callback tm) = r) (timers st)"

text \<open>
  The invariant of the timer bookkeeping: pending timeouts have distinct handles, each is
  the one whose handle its buffer holds, no two buffers hold the same handle, and every
  handle held has been issued.
\<close>

definition timers_ok :: "state \<Rightarrow> bool" where
  "timers_ok st \<longleftrightarrow>
     distinct (map tid (timers st))
     \<and> (\<forall>tm \<in> set (timers st). handle_of st (owner (callback tm)) = Some (tid tm))
     \<and> (\<forall>r r' h. handle_of st r = Some h \<longrightarrow> handle_of st r' = Some h \<longrightarrow> r = r')
     \<and> (\<forall>r h. handle_of st r = Some h \<longrightarrow> h < timers_made st)"


section \<open>handleConnect\<close>

record connect_params =
  p_host :: string
  p_port :: "int option"
  p_nickname :: string
  p_channels :: "string list option"

datatype result_details =
    ErrorDetails string
  | NicknameTooLongDetails string string
  | ConnectedDetails string int string "string list"

record tool_result =
  result_text :: string
  details :: result_details

text \<open>What the promise of an accepted connect closed over.\<close>

record pending_connect =
  pc_host :: string
  pc_port :: int
  pc_nick :: string
  pc_channels :: "string list"

text \<open>How the race between \<open>registered\<close>, \<open>socket error\<close> and the 10 s timeout ends.\<close>

datatype connect_outcome = Registered | SocketError string | TimedOut

definition normalize_channel :: "string \<Rightarrow> string" where
  "normalize_channel ch = (if startsWith ch ''#'' then ch else ''#'' @ ch)"

text \<open>
  The synchronous part of \<open>handleConnect\<close>: it returns at once (\<open>Inl\<close>), or creates the
  session state and the client, issues \<open>connect\<close>, and leaves a pending promise (\<open>Inr\<close>).
\<close>

definition handleConnect :: "connect_params \<Rightarrow> state \<Rightarrow> (tool_result + pending_connect) \<times> state" where
  "handleConnect params st =
     (if ircClient st \<noteq> None \<and> (case currentState st of None \<Rightarrow> False | Some cs \<Rightarrow> connected cs) then
        (Inl \<lparr>result_text = ''Already connected as '' @ nick (the (currentState st)),
              details = ErrorDetails ''already_connected''\<rparr>, st)
      else
        let h = p_host params;
            prt = (case p_port params of None \<Rightarrow> 6667 | Some n \<Rightarrow> if n = 0 then 6667 else n);
            nk = p_nickname params;
            chans = map normalize_channel (case p_channels params of None \<Rightarrow> [] | Some cs \<Rightarrow> cs)
        in
        if length nk > 8 then
          (let shortened = substring0 nk 8 in
           (Inl \<lparr>result_text = ''Error: Nickname '' @ dquote @ nk @ dquote
                     @ '' is too long (max 8 chars). Suggested: '' @ dquote @ shortened @ dquote
                     @ ''. Please use a shorter nickname.'',
                 details = NicknameTooLongDetails nk shortened\<rparr>, st))
        else
          (let c = clients_made st in
           (Inr \<lparr>pc_host = h, pc_port = prt, pc_nick = nk, pc_channels = chans\<rparr>,
            st\<lparr>currentState := Some \<lparr>connected = False, host = h, port = prt, nick = nk,
                                     channels = chans, profileName = None\<rparr>,
               ircClient := Some c,
               clients_made := Suc c,
               transport := transport st @ [NewClient c, ConnectCall c h prt nk]\<rparr>)))"

text \<open>
  The promise settles. On \<open>registered\<close> it resolves with the success result; on a socket
  error or the timeout it rejects, and the \<open>catch\<close> handler quits and drops the client and
  clears the session state.
\<close>

definition connect_error_message :: "connect_outcome \<Rightarrow> string" where
  "connect_error_message out =
     (case out of
        SocketError m \<Rightarrow> ''Connection failed: '' @ m
      | _ \<Rightarrow> ''Connection timeout (10s)'')"

definition handleConnect_settled :: "pending_connect \<Rightarrow> connect_outcome \<Rightarrow> state \<Rightarrow> tool_result \<times> state" where
  "handleConnect_settled pc out st =
     (case out of
        Registered \<Rightarrow>
          (\<lparr>result_text = [CHR 0xE2, CHR 0x9C, CHR 0x85] @ '' Connected to '' @ pc_host pc @ '':''
               @ show_int (pc_port pc) @ '' as '' @ pc_nick pc @ newline @ ''Joining channels: ''
               @ join_with '', '' (pc_channels pc),
            details = ConnectedDetails (pc_host pc) (pc_port pc) (pc_nick pc) (pc_channels pc)\<rparr>, st)
      | _ \<Rightarrow>
          (let m = connect_error_message out;
               st1 = (case ircClient st of
                        None \<Rightarrow> st
                      | Some c \<Rightarrow> st\<lparr>transport := transport st @ [QuitCall c None], ircClient := None\<rparr>)
           in (\<lparr>result_text = ''Error: '' @ m, details = ErrorDetails m\<rparr>,
               st1\<lparr>currentState := None\<rparr>)))"


section \<open>Profile resolution (profiles.ts)\<close>

text \<open>
  \<open>obj[key]\<close> on an ordinary object, such as those \<open>JSON.parse\<close> and an object literal
  produce: an own property if there is one, else the member of \<open>Object.prototype\<close> of that
  name, else \<open>undefined\<close>. Own entries of the configuration are objects, hence truthy, and
  so is every member of \<open>Object.prototype\<close>.
\<close>

datatype 'a property = Undefined | Inherited string | Own 'a

definition object_prototype_names :: "string list" where
  "object_prototype_names =
     [''constructor'', ''__defineGetter__'', ''__defineSetter__'', ''hasOwnProperty'',
      ''__lookupGetter__'', ''__lookupSetter__'', ''isPrototypeOf'', ''propertyIsEnumerable'',
      ''toString'', ''valueOf'', ''__proto__'', ''toLocaleString'']"

definition get_property :: "(string \<rightharpoonup> 'a) \<Rightarrow> string \<Rightarrow> 'a property" where
  "get_property obj key =
     (case obj key of
        Some v \<Rightarrow> Own v
      | None \<Rightarrow> if key \<in> set object_prototype_names then Inherited key else Undefined)"

text \<open>
  \<open>getResolvedProfile\<close> on the configuration that \<open>loadConfig\<close> returned: \<open>Inr None\<close> is
  \<open>null\<close>, \<open>Inl\<close> carries the message of the thrown \<open>Error\<close>. A member of \<open>Object.prototype\<close>
  has no \<open>server\<close> property, so its \<open>profile.server\<close> is \<open>undefined\<close>, which as a property
  key and in the message reads \<open>undefined\<close>.
\<close>

definition getResolvedProfile ::
  "IRCConfig \<Rightarrow> string \<Rightarrow> string + (IRCProfile property \<times> IRCServer property) option" where
  "getResolvedProfile config name =
     (case get_property (profiles config) name of
        Undefined \<Rightarrow> Inr None
      | profile \<Rightarrow>
          let server_name = (case profile of Own p \<Rightarrow> server p | _ \<Rightarrow> ''undefined'') in
          (case get_property (servers config) server_name of
             Undefined \<Rightarrow>
               Inl (''Profile '' @ dquote @ name @ dquote @ '' references unknown server ''
                    @ dquote @ server_name @ dquote)
           | srv \<Rightarrow> Inr (Some (profile, srv))))"


section \<open>Example states\<close>

text \<open>
  The module as loaded, a connect by \<open>alice\<close> in flight, and the same session once the
  server has registered it.
\<close>

definition initial_state :: state where
  "initial_state =
     \<lparr>ircClient = None, currentState = None, cachedAgentsContent = None, messageBuffers = [],
      eventBuffers = [], timers = [], timers_made = 0, transport = [], sent = [],
      clients_made = 0\<rparr>"

definition alice_params :: connect_params where
  "alice_params = \<lparr>p_host = ''irc.example.org'', p_port = None, p_nickname = ''alice'',
                   p_channels = Some [''dev'']\<rparr>"

definition bob_params :: connect_params where
  "bob_params = \<lparr>p_host = ''irc.example.org'', p_port = Some 6697, p_nickname = ''bob'',
                 p_channels = None\<rparr>"

definition long_params :: connect_params where
  "long_params = \<lparr>p_host = ''irc.example.org'', p_port = None, p_nickname = ''nine_char'',
                  p_channels = None\<rparr>"

definition alice_session :: IRCState where
  "alice_session = \<lparr>connected = False, host = ''irc.example.org'', port = 6667, nick = ''alice'',
                     channels = [''#dev''], profileName = None\<rparr>"

definition connecting_state :: state where
  "connecting_state = initial_state
     \<lparr>currentState := Some alice_session, ircClient := Some 0, clients_made := 1,
      transport := [NewClient 0, ConnectCall 0 ''irc.example.org'' 6667 ''alice'']\<rparr>"

definition connected_state :: state where
  "connected_state = connecting_state
     \<lparr>currentState := Some (alice_session\<lparr>connected := True\<rparr>),
      transport := transport connecting_state @ [JoinCall 0 ''#dev'']\<rparr>"


text \<open>
  Two chat bursts and two join bursts pending at once, a recorded channel mention and a
  recorded direct message, and the state a timed-out connect by \<open>alice\<close> leaves behind.
\<close>

definition two_bursts :: state where
  "two_bursts = on_message 300 ''#dev'' ''carol'' ''yo'' (on_message 0 ''#dev'' ''bob'' ''hi'' connected_state)"

definition two_joins :: state where
  "two_joins = on_join False ''alice'' 100 ''dave'' ''#ops''
                 (on_join False ''alice'' 0 ''carol'' ''#dev'' connected_state)"

definition mention_recorded :: state where
  "mention_recorded = on_message 0 ''#dev'' ''bob'' ''hello @alice'' connected_state"

definition dm_recorded :: state where
  "dm_recorded = on_message 0 ''alice'' ''bob'' ''ping'' connected_state"





section \<open>Reachable states\<close>

text \<open>
  The states the module can be in: as loaded, and after any handler modelled here has run
  or a pending timeout has fired without throwing.
\<close>

inductive reachable :: "state \<Rightarrow> bool" where
  loaded: "reachable initial_state"
| connect: "reachable st \<Longrightarrow> reachable (snd (handleConnect params st))"
| settled: "reachable st \<Longrightarrow> reachable (snd (handleConnect_settled pc out st))"
| registered: "reachable st \<Longrightarrow> on_registered st = Inr st' \<Longrightarrow> reachable st'"
| closed: "reachable st \<Longrightarrow> reachable (on_close st)"
| nick_changed: "reachable st \<Longrightarrow> reachable (on_nick old_nick new_nick st)"
| message: "reachable st \<Longrightarrow> reachable (on_message now target nk msg st)"
| joined: "reachable st \<Longrightarrow> reachable (on_join hasUI user_nick now nk channel st)"
| parted: "reachable st \<Longrightarrow> reachable (on_part user_nick now nk channel st)"
| timeout: "reachable st \<Longrightarrow> tm \<in> set (timers st) \<Longrightarrow> fire tm st = Inr st' \<Longrightarrow> reachable st'"


section \<open>Basic facts\<close>

lemma startsWith_iff: "startsWith s p \<longleftrightarrow> (\<exists>post. s = p @ post)"
  by (induction s p rule: startsWith.induct) auto

lemma str_includes_iff: "str_includes hay needle \<longleftrightarrow> (\<exists>pre post. hay = pre @ needle @ post)"
proof (induction hay)
  case Nil
  then show ?case by auto
next
  case (Cons x xs)
  show ?case
  proof
    assume "str_includes (x # xs) needle"
    then consider "startsWith (x # xs) needle" | "str_includes xs needle" by auto
    then show "\<exists>pre post. x # xs = pre @ needle @ post"
    proof cases
      case 1
      then obtain post where "x # xs = needle @ post" by (auto simp: startsWith_iff)
      then have "x # xs = [] @ needle @ post" by simp
      then show ?thesis by blast
    next
      case 2
      then obtain pre post where "xs = pre @ needle @ post" using Cons.IH by blast
      then have "x # xs = (x # pre) @ needle @ post" by simp
      then show ?thesis by blast
    qed
  next
    assume "\<exists>pre post. x # xs = pre @ needle @ post"
    then obtain pre post where eq: "x # xs = pre @ needle @ post" by blast
    show "str_includes (x # xs) needle"
    proof (cases pre)
      case Nil
      with eq have "startsWith (x # xs) needle" by (auto simp: startsWith_iff)
      then show ?thesis by simp
    next
      case (Cons p ps)
      with eq have "xs = ps @ needle @ post" by simp
      then have "str_includes xs needle" using Cons.IH by blast
      then show ?thesis by simp
    qed
  qed
qed

text \<open>The example states are the ones the handlers produce from the freshly loaded module.\<close>

lemma connecting_state_reached:
  "handleConnect alice_params initial_state =
     (Inr \<lparr>pc_host = ''irc.example.org'', pc_port = 6667, pc_nick = ''alice'',
           pc_channels = [''#dev'']\<rparr>, connecting_state)"
  by (simp add: handleConnect_def alice_params_def initial_state_def connecting_state_def
      alice_session_def normalize_channel_def Let_def)

lemma connected_state_reached: "on_registered connecting_state = Inr connected_state"
  by (simp add: on_registered_def connecting_state_def connected_state_def alice_session_def
      initial_state_def)


section \<open>The connect guard\<close>

text \<open>
  C1 (as amended). A connect issued while a client exists and the session's \<open>connected\<close>
  flag is set returns the \<open>already_connected\<close> error and leaves every variable, and the
  list of transport calls, as it was: no client is created and no connect call is issued.
\<close>

theorem handleConnect_already_connected:
  assumes "ircClient st = Some c" and "currentState st = Some cs" and "connected cs"
  shows "handleConnect params st =
           (Inl \<lparr>result_text = ''Already connected as '' @ nick cs,
                 details = ErrorDetails ''already_connected''\<rparr>, st)"
  using assms by (simp add: handleConnect_def)

theorem handleConnect_already_connected_witness:
  "ircClient connected_state = Some 0
   \<and> currentState connected_state = Some (alice_session\<lparr>connected := True\<rparr>)
   \<and> connected (alice_session\<lparr>connected := True\<rparr>)
   \<and> handleConnect bob_params connected_state =
           (Inl \<lparr>result_text = ''Already connected as alice'',
                 details = ErrorDetails ''already_connected''\<rparr>, connected_state)"
proof -
  have a: "ircClient connected_state = Some 0"
    by (simp add: connected_state_def connecting_state_def)
  have b: "currentState connected_state = Some (alice_session\<lparr>connected := True\<rparr>)"
    by (simp add: connected_state_def)
  have c: "connected (alice_session\<lparr>connected := True\<rparr>)" by simp
  show ?thesis
    using a b c handleConnect_already_connected [OF a b c, of bob_params]
    by (simp add: alice_session_def)
qed

text \<open>
  C1 as stated fails while a connect is still in flight: the client exists, the flag is
  still unset, and a second connect is accepted. It replaces the session state, creates a
  second client and issues a second connect call.
\<close>

theorem connect_while_connecting_counterexample:
  "ircClient connecting_state = Some 0
   \<and> currentState connecting_state = Some alice_session
   \<and> \<not> connected alice_session
   \<and> handleConnect bob_params connecting_state =
       (Inr \<lparr>pc_host = ''irc.example.org'', pc_port = 6697, pc_nick = ''bob'', pc_channels = []\<rparr>,
        connecting_state
          \<lparr>currentState := Some \<lparr>connected = False, host = ''irc.example.org'', port = 6697,
                                  nick = ''bob'', channels = [], profileName = None\<rparr>,
           ircClient := Some 1, clients_made := 2,
           transport := transport connecting_state
                        @ [NewClient 1, ConnectCall 1 ''irc.example.org'' 6697 ''bob'']\<rparr>)"
  by (simp add: handleConnect_def bob_params_def connecting_state_def alice_session_def
      initial_state_def Let_def)

text \<open>
  C5 (as amended). A connect that is not rejected as already connected, with a nickname of
  more than 8 units, returns the \<open>nickname_too_long\<close> error with the nickname and its first
  8 units, and leaves every variable and the list of transport calls as it was.
\<close>

theorem handleConnect_nickname_too_long:
  assumes "\<not> (ircClient st \<noteq> None \<and> (\<exists>cs. currentState st = Some cs \<and> connected cs))"
      and "length (p_nickname params) > 8"
  shows "handleConnect params st =
           (Inl \<lparr>result_text = ''Error: Nickname '' @ dquote @ p_nickname params @ dquote
                     @ '' is too long (max 8 chars). Suggested: '' @ dquote
                     @ take 8 (p_nickname params) @ dquote @ ''. Please use a shorter nickname.'',
                 details = NicknameTooLongDetails (p_nickname params) (take 8 (p_nickname params))\<rparr>,
            st)"
  using assms by (auto simp: handleConnect_def substring0_def Let_def split: option.splits)

theorem handleConnect_nickname_too_long_witness:
  "\<not> (ircClient connecting_state \<noteq> None
       \<and> (\<exists>cs. currentState connecting_state = Some cs \<and> connected cs))
   \<and> length (p_nickname long_params) > 8
   \<and> handleConnect long_params connecting_state =
           (Inl \<lparr>result_text = ''Error: Nickname '' @ dquote @ ''nine_char'' @ dquote
                     @ '' is too long (max 8 chars). Suggested: '' @ dquote
                     @ ''nine_cha'' @ dquote @ ''. Please use a shorter nickname.'',
                 details = NicknameTooLongDetails ''nine_char'' ''nine_cha''\<rparr>,
            connecting_state)"
proof -
  have a: "\<not> (ircClient connecting_state \<noteq> None
       \<and> (\<exists>cs. currentState connecting_state = Some cs \<and> connected cs))"
    by (simp add: connecting_state_def alice_session_def)
  have b: "length (p_nickname long_params) > 8" by (simp add: long_params_def)
  show ?thesis
    using a b handleConnect_nickname_too_long [OF a b]
    by (simp add: long_params_def)
qed

text \<open>
  C5 as stated fails on a connected session: the already-connected guard comes first, so a
  9-unit nickname is answered with \<open>already_connected\<close>, not \<open>nickname_too_long\<close>.
\<close>

theorem nickname_too_long_while_connected_counterexample:
  "length (p_nickname long_params) = 9
   \<and> handleConnect long_params connected_state =
       (Inl \<lparr>result_text = ''Already connected as alice'',
             details = ErrorDetails ''already_connected''\<rparr>, connected_state)
   \<and> ErrorDetails ''already_connected'' \<noteq> NicknameTooLongDetails ''nine_char'' ''nine_cha''"
  by (simp add: handleConnect_def long_params_def connected_state_def connecting_state_def
      alice_session_def)









section \<open>Nick and close events\<close>

text \<open>
  C8. A nick-change confirmation sets the session's nick to the new nick when its old nick
  is the tracked nick, changing nothing else; with any other old nick it changes nothing.
\<close>

theorem on_nick_confirmation:
  assumes "currentState st = Some cs"
  shows "(old_nick = nick cs \<longrightarrow>
            on_nick old_nick new_nick st = st\<lparr>currentState := Some (cs\<lparr>nick := new_nick\<rparr>)\<rparr>)
       \<and> (old_nick \<noteq> nick cs \<longrightarrow> on_nick old_nick new_nick st = st)"
  using assms by (simp add: on_nick_def)

theorem on_nick_confirmation_witness:
  "currentState connected_state = Some (alice_session\<lparr>connected := True\<rparr>)
   \<and> on_nick ''alice'' ''alice2'' connected_state =
        connected_state\<lparr>currentState := Some (alice_session\<lparr>connected := True, nick := ''alice2''\<rparr>)\<rparr>
   \<and> on_nick ''carol'' ''carol2'' connected_state = connected_state"
proof -
  have a: "currentState connected_state = Some (alice_session\<lparr>connected := True\<rparr>)"
    by (simp add: connected_state_def)
  show ?thesis
    using a on_nick_confirmation [OF a, of "''alice''" "''alice2''"]
      on_nick_confirmation [OF a, of "''carol''" "''carol2''"]
    by (simp add: alice_session_def)
qed

text \<open>
  C10. A close event on an existing session clears its \<open>connected\<close> flag and nothing else:
  host, port, nick, channels and profile name are as before, the session state is kept, and
  so is every other variable.
\<close>

theorem on_close_frame:
  assumes "currentState st = Some cs"
  shows "on_close st = st\<lparr>currentState := Some (cs\<lparr>connected := False\<rparr>)\<rparr>
       \<and> (\<exists>cs'. currentState (on_close st) = Some cs' \<and> \<not> connected cs' \<and> host cs' = host cs
                \<and> port cs' = port cs \<and> nick cs' = nick cs \<and> channels cs' = channels cs
                \<and> profileName cs' = profileName cs)
       \<and> ircClient (on_close st) = ircClient st"
  using assms by (simp add: on_close_def)

theorem on_close_frame_witness:
  "currentState connected_state = Some (alice_session\<lparr>connected := True\<rparr>)
   \<and> on_close connected_state = connected_state\<lparr>currentState := Some alice_session\<rparr>"
proof -
  have a: "currentState connected_state = Some (alice_session\<lparr>connected := True\<rparr>)"
    by (simp add: connected_state_def)
  show ?thesis
    using a on_close_frame [OF a] by (simp add: alice_session_def)
qed


section \<open>Timer bookkeeping\<close>

text \<open>The \<open>message\<close> handler and the join/part buffering, as one update of the state.\<close>

lemma on_message_effect:
  assumes "currentState st = Some cs"
  shows "on_message now target nk msg st =
     st\<lparr>timers := filter (\<lambda>tm. Some (tid tm) \<noteq> handle_of st (MessageTimer (bufferKey target nk)))
                      (timers st)
                    @ [\<lparr>tid = timers_made st, due = now + MESSAGE_BUFFER_DELAY_MS,
                        callback = FlushMessage (bufferKey target nk) (target = nick cs)\<rparr>],
        timers_made := Suc (timers_made st),
        messageBuffers :=
          AList.update (bufferKey target nk)
            ((case map_of (messageBuffers st) (bufferKey target nk) of
                None \<Rightarrow> \<lparr>mb_nick = nk, mb_target = target, messages = [], mb_timer = None\<rparr>
              | Some b \<Rightarrow> b)
             \<lparr>messages := messages (case map_of (messageBuffers st) (bufferKey target nk) of
                None \<Rightarrow> \<lparr>mb_nick = nk, mb_target = target, messages = [], mb_timer = None\<rparr>
              | Some b \<Rightarrow> b) @ [msg],
              mb_timer := Some (timers_made st)\<rparr>)
            (messageBuffers st)\<rparr>"
proof (cases "map_of (messageBuffers st) (bufferKey target nk)")
  case None
  with assms show ?thesis
    by (simp add: on_message_def setTimeout_def clearTimeout_def Let_def)
next
  case (Some b)
  with assms show ?thesis
    by (cases "mb_timer b")
       (simp_all add: on_message_def setTimeout_def clearTimeout_def Let_def
          cong: filter_cong)
qed

lemma record_event_effect:
  "record_event now channel line st =
     st\<lparr>timers := filter (\<lambda>tm. Some (tid tm) \<noteq> handle_of st (EventTimer channel)) (timers st)
                    @ [\<lparr>tid = timers_made st, due = now + EVENT_BUFFER_DELAY_MS,
                        callback = FlushEvent channel\<rparr>],
        timers_made := Suc (timers_made st),
        eventBuffers :=
          AList.update channel
            ((case map_of (eventBuffers st) channel of
                None \<Rightarrow> \<lparr>eb_channel = channel, events = [], eb_timer = None\<rparr>
              | Some b \<Rightarrow> b)
             \<lparr>events := events (case map_of (eventBuffers st) channel of
                None \<Rightarrow> \<lparr>eb_channel = channel, events = [], eb_timer = None\<rparr>
              | Some b \<Rightarrow> b) @ [line],
              eb_timer := Some (timers_made st)\<rparr>)
            (eventBuffers st)\<rparr>"
proof (cases "map_of (eventBuffers st) channel")
  case None
  then show ?thesis
    by (simp add: record_event_def setTimeout_def clearTimeout_def Let_def)
next
  case (Some b)
  then show ?thesis
    by (cases "eb_timer b")
       (simp_all add: record_event_def setTimeout_def clearTimeout_def Let_def
          cong: filter_cong)
qed

text \<open>Re-arming the timeout of one buffer keeps the bookkeeping invariant.\<close>

lemma timers_ok_rearm:
  assumes ok: "timers_ok st"
      and own: "owner cb = r"
      and tms: "timers st' = filter (\<lambda>tm. Some (tid tm) \<noteq> handle_of st r) (timers st)
                              @ [\<lparr>tid = timers_made st, due = d, callback = cb\<rparr>]"
      and hs: "\<And>r'. handle_of st' r' = (if r' = r then Some (timers_made st) else handle_of st r')"
      and made: "timers_made st' = Suc (timers_made st)"
  shows "timers_ok st'"
proof -
  from ok have dist: "distinct (map tid (timers st))"
    and held: "\<And>tm. tm \<in> set (timers st) \<Longrightarrow> handle_of st (owner (callback tm)) = Some (tid tm)"
    and inj: "\<And>r r' h. handle_of st r = Some h \<Longrightarrow> handle_of st r' = Some h \<Longrightarrow> r = r'"
    and issued: "\<And>r h. handle_of st r = Some h \<Longrightarrow> h < timers_made st"
    unfolding timers_ok_def by blast+
  have below: "tid tm < timers_made st" if "tm \<in> set (timers st)" for tm
    using held [OF that] issued by blast
  have kept: "owner (callback tm) \<noteq> r"
    if "tm \<in> set (timers st)" and "Some (tid tm) \<noteq> handle_of st r" for tm
    using held [OF that(1)] that(2) by auto
  have "distinct (map tid (timers st'))"
  proof -
    have "distinct (map tid (filter (\<lambda>tm. Some (tid tm) \<noteq> handle_of st r) (timers st)))"
      using dist by (rule distinct_map_filter)
    moreover have "timers_made st \<notin> tid ` set (filter (\<lambda>tm. Some (tid tm) \<noteq> handle_of st r) (timers st))"
    proof
      assume "timers_made st \<in> tid ` set (filter (\<lambda>tm. Some (tid tm) \<noteq> handle_of st r) (timers st))"
      then obtain tm where "tm \<in> set (timers st)" and "tid tm = timers_made st" by auto
      with below [of tm] show False by simp
    qed
    ultimately show ?thesis by (simp add: tms)
  qed
  moreover have "\<forall>tm \<in> set (timers st'). handle_of st' (owner (callback tm)) = Some (tid tm)"
  proof
    fix tm assume "tm \<in> set (timers st')"
    then consider "tm = \<lparr>tid = timers_made st, due = d, callback = cb\<rparr>"
      | "tm \<in> set (timers st)" "Some (tid tm) \<noteq> handle_of st r"
      by (auto simp: tms)
    then show "handle_of st' (owner (callback tm)) = Some (tid tm)"
    proof cases
      case 1
      then show ?thesis by (simp add: hs own)
    next
      case 2
      then show ?thesis using kept [OF 2] held [OF 2(1)] by (simp add: hs)
    qed
  qed
  moreover have "\<forall>r1 r2 h. handle_of st' r1 = Some h \<longrightarrow> handle_of st' r2 = Some h \<longrightarrow> r1 = r2"
  proof (intro allI impI)
    fix r1 r2 h
    assume a: "handle_of st' r1 = Some h" and b: "handle_of st' r2 = Some h"
    show "r1 = r2"
    proof (cases "r1 = r")
      case True
      with a have h: "h = timers_made st" by (simp add: hs)
      show ?thesis
      proof (cases "r2 = r")
        case True
        with \<open>r1 = r\<close> show ?thesis by simp
      next
        case False
        with b have "handle_of st r2 = Some h" by (simp add: hs)
        from issued [OF this] h show ?thesis by simp
      qed
    next
      case False
      with a have a': "handle_of st r1 = Some h" by (simp add: hs)
      show ?thesis
      proof (cases "r2 = r")
        case True
        with b have "h = timers_made st" by (simp add: hs)
        with issued [OF a'] show ?thesis by simp
      next
        case False
        with b have "handle_of st r2 = Some h" by (simp add: hs)
        with a' show ?thesis by (rule inj)
      qed
    qed
  qed
  moreover have "\<forall>r1 h. handle_of st' r1 = Some h \<longrightarrow> h < timers_made st'"
  proof (intro allI impI)
    fix r1 h assume "handle_of st' r1 = Some h"
    then show "h < timers_made st'"
      using issued [of r1 h] by (auto simp: hs made split: if_splits)
  qed
  ultimately show ?thesis unfolding timers_ok_def by blast
qed

lemma handle_of_on_message:
  assumes "currentState st = Some cs"
  shows "handle_of (on_message now target nk msg st) r =
           (if r = MessageTimer (bufferKey target nk) then Some (timers_made st) else handle_of st r)"
  by (cases r) (simp_all add: on_message_effect [OF assms] update_conv')

lemma handle_of_record_event:
  "handle_of (record_event now channel line st) r =
           (if r = EventTimer channel then Some (timers_made st) else handle_of st r)"
  by (cases r) (simp_all add: record_event_effect update_conv')

lemma timers_ok_on_message:
  assumes "timers_ok st"
  shows "timers_ok (on_message now target nk msg st)"
proof (cases "currentState st")
  case None
  with assms show ?thesis by (simp add: on_message_def)
next
  case (Some cs)
  show ?thesis
  proof (rule timers_ok_rearm [OF assms])
    show "owner (FlushMessage (bufferKey target nk) (target = nick cs))
            = MessageTimer (bufferKey target nk)" by simp
    show "timers (on_message now target nk msg st) =
            filter (\<lambda>tm. Some (tid tm) \<noteq> handle_of st (MessageTimer (bufferKey target nk))) (timers st)
            @ [\<lparr>tid = timers_made st, due = now + MESSAGE_BUFFER_DELAY_MS,
                callback = FlushMessage (bufferKey target nk) (target = nick cs)\<rparr>]"
      by (simp add: on_message_effect [OF Some])
    show "handle_of (on_message now target nk msg st) r' =
            (if r' = MessageTimer (bufferKey target nk) then Some (timers_made st)
             else handle_of st r')" for r'
      by (rule handle_of_on_message [OF Some])
    show "timers_made (on_message now target nk msg st) = Suc (timers_made st)"
      by (simp add: on_message_effect [OF Some])
  qed
qed

lemma timers_ok_record_event:
  assumes "timers_ok st"
  shows "timers_ok (record_event now channel line st)"
proof (rule timers_ok_rearm [OF assms])
  show "owner (FlushEvent channel) = EventTimer channel" by simp
  show "timers (record_event now channel line st) =
          filter (\<lambda>tm. Some (tid tm) \<noteq> handle_of st (EventTimer channel)) (timers st)
          @ [\<lparr>tid = timers_made st, due = now + EVENT_BUFFER_DELAY_MS,
              callback = FlushEvent channel\<rparr>]"
    by (simp add: record_event_effect)
  show "handle_of (record_event now channel line st) r' =
          (if r' = EventTimer channel then Some (timers_made st) else handle_of st r')" for r'
    by (rule handle_of_record_event)
  show "timers_made (record_event now channel line st) = Suc (timers_made st)"
    by (simp add: record_event_effect)
qed

lemma timers_ok_on_join: "timers_ok st \<Longrightarrow> timers_ok (on_join hasUI user_nick now nk channel st)"
  by (simp add: on_join_def timers_ok_record_event)

lemma timers_ok_on_part: "timers_ok st \<Longrightarrow> timers_ok (on_part user_nick now nk channel st)"
  by (simp add: on_part_def timers_ok_record_event)

lemma flushBuffer_effect:
  assumes "flushBuffer key is_dm b st = Inr st'"
  shows "timers st' = timers st" and "timers_made st' = timers_made st"
    and "eventBuffers st' = eventBuffers st"
    and "currentState st' = currentState st"
    and "messageBuffers st' = messageBuffers st
         \<or> messageBuffers st' = AList.delete key (messageBuffers st)"
  using assms by (auto simp: flushBuffer_def Let_def split: if_splits option.splits)

lemma flushEventBuffer_effect:
  shows "timers (flushEventBuffer key b st) = timers st"
    and "timers_made (flushEventBuffer key b st) = timers_made st"
    and "messageBuffers (flushEventBuffer key b st) = messageBuffers st"
    and "currentState (flushEventBuffer key b st) = currentState st"
    and "eventBuffers (flushEventBuffer key b st) = eventBuffers st
         \<or> eventBuffers (flushEventBuffer key b st) = AList.delete key (eventBuffers st)"
  by (auto simp: flushEventBuffer_def)

text \<open>What a timeout that fires without throwing leaves behind.\<close>

lemma fire_effect:
  assumes "fire tm st = Inr st'"
  shows "timers st' = filter (\<lambda>x. tid x \<noteq> tid tm) (timers st)"
    and "timers_made st' = timers_made st"
    and "currentState st' = currentState st"
    and "\<And>key is_dm. callback tm = FlushMessage key is_dm \<Longrightarrow>
           eventBuffers st' = eventBuffers st
           \<and> (messageBuffers st' = messageBuffers st
              \<or> messageBuffers st' = AList.delete key (messageBuffers st))"
    and "\<And>key. callback tm = FlushEvent key \<Longrightarrow>
           messageBuffers st' = messageBuffers st
           \<and> (eventBuffers st' = eventBuffers st
              \<or> eventBuffers st' = AList.delete key (eventBuffers st))"
proof -
  let ?st1 = "st\<lparr>timers := filter (\<lambda>x. tid x \<noteq> tid tm) (timers st)\<rparr>"
  show "timers st' = filter (\<lambda>x. tid x \<noteq> tid tm) (timers st)"
    using assms flushBuffer_effect(1) [of _ _ _ ?st1 st'] flushEventBuffer_effect(1) [of _ _ ?st1]
    by (auto simp: fire_def Let_def split: callback.splits option.splits)
  show "timers_made st' = timers_made st"
    using assms flushBuffer_effect(2) [of _ _ _ ?st1 st'] flushEventBuffer_effect(2) [of _ _ ?st1]
    by (auto simp: fire_def Let_def split: callback.splits option.splits)
  show "currentState st' = currentState st"
    using assms flushBuffer_effect(4) [of _ _ _ ?st1 st'] flushEventBuffer_effect(4) [of _ _ ?st1]
    by (auto simp: fire_def Let_def split: callback.splits option.splits)
  show "eventBuffers st' = eventBuffers st
           \<and> (messageBuffers st' = messageBuffers st
              \<or> messageBuffers st' = AList.delete key (messageBuffers st))"
    if "callback tm = FlushMessage key is_dm" for key is_dm
    using assms that flushBuffer_effect(3,5) [of key is_dm _ ?st1 st']
    by (auto simp: fire_def Let_def split: option.splits)
  show "messageBuffers st' = messageBuffers st
           \<and> (eventBuffers st' = eventBuffers st
              \<or> eventBuffers st' = AList.delete key (eventBuffers st))"
    if "callback tm = FlushEvent key" for key
    using assms that flushEventBuffer_effect(3,5) [of key _ ?st1]
    by (auto simp: fire_def Let_def split: option.splits)
qed

lemma handle_of_fire:
  assumes "fire tm st = Inr st'"
  shows "r \<noteq> owner (callback tm) \<Longrightarrow> handle_of st' r = handle_of st r"
    and "handle_of st' (owner (callback tm)) = None
         \<or> handle_of st' (owner (callback tm)) = handle_of st (owner (callback tm))"
proof -
  show "handle_of st' r = handle_of st r" if "r \<noteq> owner (callback tm)"
  proof (cases "callback tm")
    case (FlushMessage key is_dm)
    with that fire_effect(4) [OF assms FlushMessage] show ?thesis
      by (cases r) (auto simp: delete_conv')
  next
    case (FlushEvent key)
    with that fire_effect(5) [OF assms FlushEvent] show ?thesis
      by (cases r) (auto simp: delete_conv')
  qed
  show "handle_of st' (owner (callback tm)) = None
         \<or> handle_of st' (owner (callback tm)) = handle_of st (owner (callback tm))"
  proof (cases "callback tm")
    case (FlushMessage key is_dm)
    with fire_effect(4) [OF assms FlushMessage] show ?thesis
      by (auto simp: delete_conv')
  next
    case (FlushEvent key)
    with fire_effect(5) [OF assms FlushEvent] show ?thesis
      by (auto simp: delete_conv')
  qed
qed

lemma timers_ok_fire:
  assumes ok: "timers_ok st" and pend: "tm \<in> set (timers st)" and fired: "fire tm st = Inr st'"
  shows "timers_ok st'"
proof -
  from ok have dist: "distinct (map tid (timers st))"
    and held: "\<And>x. x \<in> set (timers st) \<Longrightarrow> handle_of st (owner (callback x)) = Some (tid x)"
    and inj: "\<And>r r' h. handle_of st r = Some h \<Longrightarrow> handle_of st r' = Some h \<Longrightarrow> r = r'"
    and issued: "\<And>r h. handle_of st r = Some h \<Longrightarrow> h < timers_made st"
    unfolding timers_ok_def by blast+
  note tms = fire_effect(1) [OF fired] and made = fire_effect(2) [OF fired]
  note others = handle_of_fire(1) [OF fired] and own = handle_of_fire(2) [OF fired]
  have before: "handle_of st r = Some h" if "handle_of st' r = Some h" for r h
    using that others [of r] own by (cases "r = owner (callback tm)") auto
  have "distinct (map tid (timers st'))"
    unfolding tms using dist by (rule distinct_map_filter)
  moreover have "\<forall>x \<in> set (timers st'). handle_of st' (owner (callback x)) = Some (tid x)"
  proof
    fix x assume "x \<in> set (timers st')"
    then have x: "x \<in> set (timers st)" and ne: "tid x \<noteq> tid tm" by (auto simp: tms)
    have "owner (callback x) \<noteq> owner (callback tm)"
      using held [OF x] held [OF pend] ne by auto
    then show "handle_of st' (owner (callback x)) = Some (tid x)"
      using others held [OF x] by simp
  qed
  moreover have "\<forall>r1 r2 h. handle_of st' r1 = Some h \<longrightarrow> handle_of st' r2 = Some h \<longrightarrow> r1 = r2"
    using before inj by blast
  moreover have "\<forall>r1 h. handle_of st' r1 = Some h \<longrightarrow> h < timers_made st'"
    using before issued made by auto
  ultimately show ?thesis unfolding timers_ok_def by blast
qed

text \<open>Timeouts of other buffers stay pending, unchanged, when one buffer is re-armed or flushed.\<close>

lemma pending_for_rearm:
  assumes ok: "timers_ok st"
      and tms: "timers st' = filter (\<lambda>tm. Some (tid tm) \<noteq> handle_of st r) (timers st)
                              @ [\<lparr>tid = h, due = d, callback = cb\<rparr>]"
      and own: "owner cb = r" and other: "r' \<noteq> r"
  shows "pending_for r' st' = pending_for r' st"
proof -
  from ok have held: "\<And>x. x \<in> set (timers st) \<Longrightarrow> handle_of st (owner (callback x)) = Some (tid x)"
    and inj: "\<And>r r' h. handle_of st r = Some h \<Longrightarrow> handle_of st r' = Some h \<Longrightarrow> r = r'"
    unfolding timers_ok_def by blast+
  have "filter (\<lambda>tm. owner (callback tm) = r')
          (filter (\<lambda>tm. Some (tid tm) \<noteq> handle_of st r) (timers st))
        = filter (\<lambda>tm. owner (callback tm) = r') (timers st)"
    unfolding filter_filter
  proof (rule filter_cong [OF refl])
    fix x assume x: "x \<in> set (timers st)"
    show "(Some (tid x) \<noteq> handle_of st r \<and> owner (callback x) = r') = (owner (callback x) = r')"
      using held [OF x] inj [of "owner (callback x)" "tid x" r] other by auto
  qed
  then show ?thesis
    using own other by (simp add: pending_for_def tms)
qed

lemma pending_for_on_message:
  assumes "timers_ok st" and "r \<noteq> MessageTimer (bufferKey target nk)"
  shows "pending_for r (on_message now target nk msg st) = pending_for r st"
proof (cases "currentState st")
  case None
  then show ?thesis by (simp add: on_message_def)
next
  case (Some cs)
  show ?thesis
    by (rule pending_for_rearm [OF assms(1) _ _ assms(2), where h = "timers_made st"
          and d = "now + MESSAGE_BUFFER_DELAY_MS"
          and cb = "FlushMessage (bufferKey target nk) (target = nick cs)"])
       (simp_all add: on_message_effect [OF Some])
qed

lemma pending_for_record_event:
  assumes "timers_ok st" and "r \<noteq> EventTimer channel"
  shows "pending_for r (record_event now channel line st) = pending_for r st"
  by (rule pending_for_rearm [OF assms(1) _ _ assms(2), where h = "timers_made st"
        and d = "now + EVENT_BUFFER_DELAY_MS" and cb = "FlushEvent channel"])
     (simp_all add: record_event_effect)

lemma pending_for_fire:
  assumes ok: "timers_ok st" and pend: "tm \<in> set (timers st)" and fired: "fire tm st = Inr st'"
      and other: "r \<noteq> owner (callback tm)"
  shows "pending_for r st' = pending_for r st"
proof -
  from ok have held: "\<And>x. x \<in> set (timers st) \<Longrightarrow> handle_of st (owner (callback x)) = Some (tid x)"
    and inj: "\<And>r r' h. handle_of st r = Some h \<Longrightarrow> handle_of st r' = Some h \<Longrightarrow> r = r'"
    unfolding timers_ok_def by blast+
  have "filter (\<lambda>x. owner (callback x) = r) (filter (\<lambda>x. tid x \<noteq> tid tm) (timers st))
        = filter (\<lambda>x. owner (callback x) = r) (timers st)"
    unfolding filter_filter
  proof (rule filter_cong [OF refl])
    fix x assume x: "x \<in> set (timers st)"
    show "(tid x \<noteq> tid tm \<and> owner (callback x) = r) = (owner (callback x) = r)"
      using held [OF x] held [OF pend] inj [of "owner (callback x)" "tid x" "owner (callback tm)"]
        other by auto
  qed
  then show ?thesis
    by (simp add: pending_for_def fire_effect(1) [OF fired])
qed

text \<open>
  The invariant holds when the module is loaded, and the handlers that do not touch the
  buffers or the timeouts keep it.
\<close>

lemma timers_ok_initial_state: "timers_ok initial_state"
proof -
  have "handle_of initial_state r = None" for r
    by (cases r) (simp_all add: initial_state_def)
  then show ?thesis
    by (simp add: timers_ok_def initial_state_def)
qed

lemma timers_ok_frame:
  assumes "messageBuffers st' = messageBuffers st" and "eventBuffers st' = eventBuffers st"
      and "timers st' = timers st" and "timers_made st' = timers_made st"
  shows "timers_ok st' = timers_ok st"
proof -
  have "handle_of st' r = handle_of st r" for r
    using assms(1,2) by (cases r) simp_all
  then show ?thesis
    by (simp add: timers_ok_def assms(3,4))
qed

lemma timers_ok_handleConnect: "timers_ok (snd (handleConnect params st)) = timers_ok st"
  by (rule timers_ok_frame) (simp_all add: handleConnect_def Let_def)

lemma timers_ok_handleConnect_settled:
  "timers_ok (snd (handleConnect_settled pc out st)) = timers_ok st"
  by (rule timers_ok_frame)
     (simp_all add: handleConnect_settled_def Let_def split: connect_outcome.splits option.splits)

lemma timers_ok_on_registered: "on_registered st = Inr st' \<Longrightarrow> timers_ok st' = timers_ok st"
  by (rule timers_ok_frame)
     (auto simp: on_registered_def Let_def split: option.splits list.splits)

lemma timers_ok_on_close: "timers_ok (on_close st) = timers_ok st"
  by (rule timers_ok_frame) (simp_all add: on_close_def split: option.splits)

lemma timers_ok_on_nick: "timers_ok (on_nick old_nick new_nick st) = timers_ok st"
  by (rule timers_ok_frame) (simp_all add: on_nick_def split: option.splits)

text \<open>Hence the invariant holds in every reachable state.\<close>

lemma reachable_timers_ok: "reachable st \<Longrightarrow> timers_ok st"
proof (induction rule: reachable.induct)
  case loaded
  show ?case by (rule timers_ok_initial_state)
next
  case (connect st params)
  then show ?case by (simp add: timers_ok_handleConnect)
next
  case (settled st pc out)
  then show ?case by (simp add: timers_ok_handleConnect_settled)
next
  case (registered st st')
  then show ?case by (simp add: timers_ok_on_registered)
next
  case (closed st)
  then show ?case by (simp add: timers_ok_on_close)
next
  case (nick_changed st old_nick new_nick)
  then show ?case by (simp add: timers_ok_on_nick)
next
  case (message st now target nk msg)
  then show ?case by (simp add: timers_ok_on_message)
next
  case (joined st hasUI user_nick now nk channel)
  then show ?case by (simp add: timers_ok_on_join)
next
  case (parted st user_nick now nk channel)
  then show ?case by (simp add: timers_ok_on_part)
next
  case (timeout st tm st')
  then show ?case by (blast intro: timers_ok_fire)
qed

text \<open>The example states with pending bursts.\<close>

lemmas example_defs =
  connected_state_def connecting_state_def initial_state_def alice_session_def
  bufferKey_def MESSAGE_BUFFER_DELAY_MS_def EVENT_BUFFER_DELAY_MS_def

lemma timers_ok_connected_state: "timers_ok connected_state"
proof -
  have "handle_of connected_state r = None" for r
    by (cases r) (simp_all add: example_defs)
  then show ?thesis
    by (simp add: timers_ok_def example_defs)
qed

lemma connected_state_fields:
  shows "currentState connected_state = Some (alice_session\<lparr>connected := True\<rparr>)"
    and "messageBuffers connected_state = []" and "eventBuffers connected_state = []"
    and "timers connected_state = []" and "timers_made connected_state = 0"
    and "sent connected_state = []" and "ircClient connected_state = Some 0"
  by (simp_all add: example_defs)

lemma two_bursts_fields:
  shows "messageBuffers two_bursts =
     [(''#dev:bob'', \<lparr>mb_nick = ''bob'', mb_target = ''#dev'', messages = [''hi''],
          mb_timer = Some 0\<rparr>),
      (''#dev:carol'', \<lparr>mb_nick = ''carol'', mb_target = ''#dev'', messages = [''yo''],
          mb_timer = Some 1\<rparr>)]"
    and "timers two_bursts =
     [\<lparr>tid = 0, due = 1000, callback = FlushMessage ''#dev:bob'' False\<rparr>,
      \<lparr>tid = 1, due = 1300, callback = FlushMessage ''#dev:carol'' False\<rparr>]"
    and "eventBuffers two_bursts = []"
    and "sent two_bursts = []"
    and "currentState two_bursts = Some (alice_session\<lparr>connected := True\<rparr>)"
  by (simp_all add: two_bursts_def on_message_def setTimeout_def clearTimeout_def example_defs
      Let_def)

lemma two_joins_fields:
  shows "eventBuffers two_joins =
     [(''#dev'', \<lparr>eb_channel = ''#dev'', events = [''carol joined #dev''], eb_timer = Some 0\<rparr>),
      (''#ops'', \<lparr>eb_channel = ''#ops'', events = [''dave joined #ops''], eb_timer = Some 1\<rparr>)]"
    and "timers two_joins =
     [\<lparr>tid = 0, due = 2000, callback = FlushEvent ''#dev''\<rparr>,
      \<lparr>tid = 1, due = 2100, callback = FlushEvent ''#ops''\<rparr>]"
    and "messageBuffers two_joins = []"
    and "sent two_joins = []"
  by (simp_all add: two_joins_def on_join_def record_event_def client_user_nick_def
      setTimeout_def clearTimeout_def example_defs Let_def)

lemma timers_ok_two_bursts: "timers_ok two_bursts"
  unfolding two_bursts_def
  by (intro timers_ok_on_message timers_ok_connected_state)

lemma timers_ok_two_joins: "timers_ok two_joins"
  unfolding two_joins_def
  by (intro timers_ok_on_join timers_ok_connected_state)


section \<open>Routing of a flushed chat unit\<close>

lemma on_message_recorded:
  assumes "currentState st = Some cs"
  shows "\<exists>b. map_of (messageBuffers (on_message now target nk msg st)) (bufferKey target nk) = Some b
             \<and> messages b \<noteq> []"
    and "last (timers (on_message now target nk msg st)) =
           \<lparr>tid = timers_made st, due = now + MESSAGE_BUFFER_DELAY_MS,
            callback = FlushMessage (bufferKey target nk) (target = nick cs)\<rparr>"
  by (simp_all add: on_message_effect [OF assms] update_conv')

lemma fire_message:
  assumes "callback tm = FlushMessage key is_dm" and "map_of (messageBuffers st) key = Some b"
  shows "fire tm st =
           flushBuffer key is_dm b (st\<lparr>timers := filter (\<lambda>x. tid x \<noteq> tid tm) (timers st)\<rparr>)"
  using assms by (simp add: fire_def Let_def)

text \<open>
  C4. When a line addressed to the session's own nick has been recorded, the timeout that
  the handler set delivers the buffered unit, when it fires, by \<open>sendUserMessage\<close> with
  \<open>deliverAs: steer\<close>, as \<open>IRC DM from <nick>: <text>\<close>, whatever the text and whatever the
  session state is by then.
\<close>

theorem dm_unit_steers:
  assumes "currentState st0 = Some cs0"
      and "target = nick cs0"
      and "tm = last (timers (on_message now target nk msg st0))"
      and "map_of (messageBuffers (on_message now target nk msg st0)) (bufferKey target nk) = Some b"
      and "map_of (messageBuffers st) (bufferKey target nk) = Some b"
  shows "fire tm st =
           Inr (st\<lparr>timers := filter (\<lambda>x. tid x \<noteq> tid tm) (timers st),
                   sent := sent st @
                      [SendUserMessage
                         (''IRC DM from '' @ mb_nick b @ '': '' @ join_with newline (messages b))
                         ''steer''],
                   messageBuffers := AList.delete (bufferKey target nk) (messageBuffers st)\<rparr>)"
proof -
  have cb: "callback tm = FlushMessage (bufferKey target nk) True"
    using on_message_recorded(2) [OF assms(1)] assms(2,3) by simp
  have ne: "messages b \<noteq> []"
    using on_message_recorded(1) [OF assms(1), of now target nk msg] assms(4) by auto
  show ?thesis
    unfolding fire_message [OF cb assms(5)]
    using ne by (simp add: flushBuffer_def Let_def)
qed

theorem dm_unit_steers_witness:
  "currentState connected_state = Some (alice_session\<lparr>connected := True\<rparr>)
   \<and> ''alice'' = nick (alice_session\<lparr>connected := True\<rparr>)
   \<and> last (timers dm_recorded) =
       \<lparr>tid = 0, due = 1000, callback = FlushMessage (bufferKey ''alice'' ''bob'') True\<rparr>
   \<and> map_of (messageBuffers dm_recorded) (bufferKey ''alice'' ''bob'') =
       Some \<lparr>mb_nick = ''bob'', mb_target = ''alice'', messages = [''ping''], mb_timer = Some 0\<rparr>
   \<and> fire \<lparr>tid = 0, due = 1000, callback = FlushMessage (bufferKey ''alice'' ''bob'') True\<rparr>
        (dm_recorded\<lparr>currentState := None\<rparr>) =
       Inr (dm_recorded\<lparr>currentState := None, timers := [],
                        sent := [SendUserMessage ''IRC DM from bob: ping'' ''steer''],
                        messageBuffers := []\<rparr>)"
proof -
  let ?b = "\<lparr>mb_nick = ''bob'', mb_target = ''alice'', messages = [''ping''], mb_timer = Some 0\<rparr>"
  let ?tm = "\<lparr>tid = 0, due = 1000, callback = FlushMessage (bufferKey ''alice'' ''bob'') True\<rparr>"
  have a: "currentState connected_state = Some (alice_session\<lparr>connected := True\<rparr>)"
    by (simp add: connected_state_def)
  have b: "''alice'' = nick (alice_session\<lparr>connected := True\<rparr>)"
    by (simp add: alice_session_def)
  have e: "messageBuffers dm_recorded = [(bufferKey ''alice'' ''bob'', ?b)]"
    "sent dm_recorded = []" "timers dm_recorded = [?tm]"
    by (simp_all add: dm_recorded_def on_message_def setTimeout_def clearTimeout_def
        example_defs Let_def)
  have t: "?tm = last (timers (on_message 0 ''alice'' ''bob'' ''ping'' connected_state))"
    using e(3) by (simp add: dm_recorded_def)
  have c: "map_of (messageBuffers (on_message 0 ''alice'' ''bob'' ''ping'' connected_state))
             (bufferKey ''alice'' ''bob'') = Some ?b"
    using e(1) by (simp add: dm_recorded_def)
  have d: "map_of (messageBuffers (dm_recorded\<lparr>currentState := None\<rparr>))
             (bufferKey ''alice'' ''bob'') = Some ?b"
    using e(1) by simp
  show ?thesis
    using a b d e dm_unit_steers [OF a b t c d]
    by (simp add: newline_def)
qed

text \<open>
  C3. When a line addressed to something other than the session's nick has been recorded,
  the timeout that the handler set delivers the buffered unit, when it fires, by
  \<open>sendMessage\<close> as \<open>[<channel>] <nick>: <text>\<close>, and \<open>triggerTurn\<close> is true exactly when \<open>@\<close>
  followed by the nick current at that moment occurs in the combined text as a contiguous
  substring.
\<close>

theorem channel_unit_context:
  assumes "currentState st0 = Some cs0"
      and "target \<noteq> nick cs0"
      and "tm = last (timers (on_message now target nk msg st0))"
      and "map_of (messageBuffers (on_message now target nk msg st0)) (bufferKey target nk) = Some b"
      and "map_of (messageBuffers st) (bufferKey target nk) = Some b"
      and "currentState st = Some cs"
  shows "\<exists>triggerTurn.
           fire tm st =
             Inr (st\<lparr>timers := filter (\<lambda>x. tid x \<noteq> tid tm) (timers st),
                     sent := sent st @
                      [SendMessage
                         \<lparr>customType = ''irc_channel_message'',
                          content = ''['' @ mb_target b @ ''] '' @ mb_nick b @ '': ''
                                    @ join_with newline (messages b),
                          display = True,
                          msg_details = ChannelMessageDetails (mb_target b) (mb_nick b)
                                          (join_with newline (messages b))\<rparr>
                         triggerTurn],
                     messageBuffers := AList.delete (bufferKey target nk) (messageBuffers st)\<rparr>)
         \<and> (triggerTurn \<longleftrightarrow>
              (\<exists>pre post. join_with newline (messages b) = pre @ ''@'' @ nick cs @ post))"
proof -
  have cb: "callback tm = FlushMessage (bufferKey target nk) False"
    using on_message_recorded(2) [OF assms(1)] assms(2,3) by simp
  have ne: "messages b \<noteq> []"
    using on_message_recorded(1) [OF assms(1), of now target nk msg] assms(4) by auto
  have "fire tm st =
             Inr (st\<lparr>timers := filter (\<lambda>x. tid x \<noteq> tid tm) (timers st),
                     sent := sent st @
                      [SendMessage
                         \<lparr>customType = ''irc_channel_message'',
                          content = ''['' @ mb_target b @ ''] '' @ mb_nick b @ '': ''
                                    @ join_with newline (messages b),
                          display = True,
                          msg_details = ChannelMessageDetails (mb_target b) (mb_nick b)
                                          (join_with newline (messages b))\<rparr>
                         (str_includes (join_with newline (messages b)) (''@'' @ nick cs))],
                     messageBuffers := AList.delete (bufferKey target nk) (messageBuffers st)\<rparr>)"
    unfolding fire_message [OF cb assms(5)]
    using ne assms(6) by (simp add: flushBuffer_def Let_def)
  moreover have "str_includes (join_with newline (messages b)) (''@'' @ nick cs) \<longleftrightarrow>
              (\<exists>pre post. join_with newline (messages b) = pre @ ''@'' @ nick cs @ post)"
    by (simp add: str_includes_iff)
  ultimately show ?thesis by blast
qed

theorem channel_unit_context_witness:
  "currentState connected_state = Some (alice_session\<lparr>connected := True\<rparr>)
   \<and> ''#dev'' \<noteq> nick (alice_session\<lparr>connected := True\<rparr>)
   \<and> last (timers mention_recorded) =
       \<lparr>tid = 0, due = 1000, callback = FlushMessage (bufferKey ''#dev'' ''bob'') False\<rparr>
   \<and> map_of (messageBuffers mention_recorded) (bufferKey ''#dev'' ''bob'') =
       Some \<lparr>mb_nick = ''bob'', mb_target = ''#dev'', messages = [''hello @alice''],
             mb_timer = Some 0\<rparr>
   \<and> currentState mention_recorded = Some (alice_session\<lparr>connected := True\<rparr>)
   \<and> fire \<lparr>tid = 0, due = 1000, callback = FlushMessage (bufferKey ''#dev'' ''bob'') False\<rparr>
        mention_recorded =
       Inr (mention_recorded
             \<lparr>timers := [],
              sent := [SendMessage
                        \<lparr>customType = ''irc_channel_message'',
                         content = ''[#dev] bob: hello @alice'', display = True,
                         msg_details = ChannelMessageDetails ''#dev'' ''bob'' ''hello @alice''\<rparr>
                        True],
              messageBuffers := []\<rparr>)"
proof -
  let ?b = "\<lparr>mb_nick = ''bob'', mb_target = ''#dev'', messages = [''hello @alice''],
             mb_timer = Some 0\<rparr>"
  let ?tm = "\<lparr>tid = 0, due = 1000, callback = FlushMessage (bufferKey ''#dev'' ''bob'') False\<rparr>"
  let ?cs = "alice_session\<lparr>connected := True\<rparr>"
  have a: "currentState connected_state = Some ?cs"
    by (simp add: connected_state_def)
  have b: "''#dev'' \<noteq> nick ?cs"
    by (simp add: alice_session_def)
  have f: "messageBuffers mention_recorded = [(bufferKey ''#dev'' ''bob'', ?b)]"
    "sent mention_recorded = []" "timers mention_recorded = [?tm]"
    "currentState mention_recorded = Some ?cs"
    by (simp_all add: mention_recorded_def on_message_def setTimeout_def clearTimeout_def
        example_defs Let_def)
  have t: "?tm = last (timers (on_message 0 ''#dev'' ''bob'' ''hello @alice'' connected_state))"
    using f(3) by (simp add: mention_recorded_def)
  have c: "map_of (messageBuffers (on_message 0 ''#dev'' ''bob'' ''hello @alice'' connected_state))
             (bufferKey ''#dev'' ''bob'') = Some ?b"
    using f(1) by (simp add: mention_recorded_def)
  have d: "map_of (messageBuffers mention_recorded) (bufferKey ''#dev'' ''bob'') = Some ?b"
    using f(1) by simp
  have g: "join_with newline (messages ?b) = ''hello '' @ ''@'' @ nick ?cs @ ''''"
    by (simp add: alice_session_def)
  from channel_unit_context [OF a b t c d f(4)]
  obtain triggerTurn where
    fired: "fire ?tm mention_recorded =
             Inr (mention_recorded\<lparr>timers := filter (\<lambda>x. tid x \<noteq> tid ?tm) (timers mention_recorded),
                   sent := sent mention_recorded @
                      [SendMessage
                         \<lparr>customType = ''irc_channel_message'',
                          content = ''['' @ mb_target ?b @ ''] '' @ mb_nick ?b @ '': ''
                                    @ join_with newline (messages ?b),
                          display = True,
                          msg_details = ChannelMessageDetails (mb_target ?b) (mb_nick ?b)
                                          (join_with newline (messages ?b))\<rparr>
                         triggerTurn],
                   messageBuffers := AList.delete (bufferKey ''#dev'' ''bob'')
                                       (messageBuffers mention_recorded)\<rparr>)"
    and trig: "triggerTurn \<longleftrightarrow>
              (\<exists>pre post. join_with newline (messages ?b) = pre @ ''@'' @ nick ?cs @ post)"
    by blast
  from trig g have "triggerTurn" by blast
  with fired a b d f show ?thesis by simp
qed


section \<open>Debouncing\<close>

lemma advance_idle:
  assumes "timers st = []"
  shows "advance t st = Inr st"
  using assms by (simp add: advance_def due_timers_def)

lemma advance_not_due:
  assumes "timers st = [tm]" and "t < due tm"
  shows "advance t st = Inr st"
  using assms by (simp add: advance_def due_timers_def)

lemma advance_due:
  assumes "timers st = [tm]" and "due tm \<le> t"
  shows "advance t st = fire tm st"
  using assms by (simp add: advance_def due_timers_def split: sum.splits)

text \<open>
  A burst continuing a buffer whose only pending timeout, the last one issued, was set at
  \<open>t0\<close>.
\<close>

lemma run_messages_burst:
  assumes "currentState st = Some cs"
      and "map_of (messageBuffers st) (bufferKey target nk) = Some b"
      and "mb_timer b = Some h"
      and "timers st = [\<lparr>tid = h, due = t0 + MESSAGE_BUFFER_DELAY_MS,
                          callback = FlushMessage (bufferKey target nk) (target = nick cs)\<rparr>]"
      and "timers_made st = Suc h"
      and "within_quiet (t0 # map fst evs)"
  shows "run_messages target nk evs st =
           Inr (st\<lparr>timers := [\<lparr>tid = h + length evs,
                                 due = last (t0 # map fst evs) + MESSAGE_BUFFER_DELAY_MS,
                                 callback = FlushMessage (bufferKey target nk) (target = nick cs)\<rparr>],
                   timers_made := Suc (h + length evs),
                   messageBuffers :=
                     AList.update (bufferKey target nk)
                       (b\<lparr>messages := messages b @ map snd evs,
                          mb_timer := Some (h + length evs)\<rparr>)
                       (messageBuffers st)\<rparr>)"
  using assms
proof (induction evs arbitrary: st b h t0)
  case Nil
  have "b\<lparr>messages := messages b, mb_timer := Some h\<rparr> = b"
    using Nil.prems(3) by simp
  moreover have "AList.update (bufferKey target nk) b (messageBuffers st) = messageBuffers st"
    using Nil.prems(2) by (rule update_triv)
  moreover have "st\<lparr>timers := timers st, timers_made := timers_made st,
                    messageBuffers := messageBuffers st\<rparr> = st"
    by simp
  ultimately show ?case
    using Nil.prems(4,5) by simp
next
  case (Cons ev evs)
  obtain t msg where ev: "ev = (t, msg)" by (cases ev)
  let ?key = "bufferKey target nk"
  let ?tm0 = "\<lparr>tid = h, due = t0 + MESSAGE_BUFFER_DELAY_MS,
               callback = FlushMessage ?key (target = nick cs)\<rparr>"
  from Cons.prems(6) ev have t: "t < t0 + MESSAGE_BUFFER_DELAY_MS"
    and rest: "within_quiet (t # map fst evs)" by simp_all
  have adv: "advance t st = Inr st"
    by (rule advance_not_due [OF Cons.prems(4)]) (use t in simp)
  let ?b = "b\<lparr>messages := messages b @ [msg], mb_timer := Some (Suc h)\<rparr>"
  let ?st = "st\<lparr>timers := [\<lparr>tid = Suc h, due = t + MESSAGE_BUFFER_DELAY_MS,
                              callback = FlushMessage ?key (target = nick cs)\<rparr>],
                timers_made := Suc (Suc h),
                messageBuffers := AList.update ?key ?b (messageBuffers st)\<rparr>"
  have step: "on_message t target nk msg st = ?st"
    unfolding on_message_effect [OF Cons.prems(1)]
    using Cons.prems(2,3,4,5) by simp
  have "run_messages target nk evs ?st =
           Inr (?st\<lparr>timers := [\<lparr>tid = Suc h + length evs,
                                 due = last (t # map fst evs) + MESSAGE_BUFFER_DELAY_MS,
                                 callback = FlushMessage ?key (target = nick cs)\<rparr>],
                   timers_made := Suc (Suc h + length evs),
                   messageBuffers :=
                     AList.update ?key
                       (?b\<lparr>messages := messages ?b @ map snd evs,
                          mb_timer := Some (Suc h + length evs)\<rparr>)
                       (messageBuffers ?st)\<rparr>)"
    by (rule Cons.IH) (use Cons.prems(1) rest in \<open>simp_all add: update_conv'\<close>)
  then show ?case
    by (simp add: ev adv step)
qed

lemma run_messages_fresh:
  assumes "currentState st = Some cs"
      and "timers st = []"
      and "map_of (messageBuffers st) (bufferKey target nk) = None"
      and "evs \<noteq> []"
      and "within_quiet (map fst evs)"
  shows "run_messages target nk evs st =
           Inr (st\<lparr>timers := [\<lparr>tid = timers_made st + length evs - 1,
                                 due = fst (last evs) + MESSAGE_BUFFER_DELAY_MS,
                                 callback = FlushMessage (bufferKey target nk) (target = nick cs)\<rparr>],
                   timers_made := timers_made st + length evs,
                   messageBuffers :=
                     AList.update (bufferKey target nk)
                       \<lparr>mb_nick = nk, mb_target = target, messages = map snd evs,
                        mb_timer = Some (timers_made st + length evs - 1)\<rparr>
                       (messageBuffers st)\<rparr>)"
proof -
  obtain t msg rest where evs: "evs = (t, msg) # rest"
    using assms(4) by (cases evs) auto
  let ?key = "bufferKey target nk"
  let ?h = "timers_made st"
  let ?b = "\<lparr>mb_nick = nk, mb_target = target, messages = [msg], mb_timer = Some ?h\<rparr>"
  let ?st = "st\<lparr>timers := [\<lparr>tid = ?h, due = t + MESSAGE_BUFFER_DELAY_MS,
                              callback = FlushMessage ?key (target = nick cs)\<rparr>],
                timers_made := Suc ?h,
                messageBuffers := AList.update ?key ?b (messageBuffers st)\<rparr>"
  have adv: "advance t st = Inr st"
    by (rule advance_idle [OF assms(2)])
  have step: "on_message t target nk msg st = ?st"
    unfolding on_message_effect [OF assms(1)]
    using assms(2,3) by simp
  have "run_messages target nk rest ?st =
           Inr (?st\<lparr>timers := [\<lparr>tid = ?h + length rest,
                                 due = last (t # map fst rest) + MESSAGE_BUFFER_DELAY_MS,
                                 callback = FlushMessage ?key (target = nick cs)\<rparr>],
                   timers_made := Suc (?h + length rest),
                   messageBuffers :=
                     AList.update ?key
                       (?b\<lparr>messages := messages ?b @ map snd rest,
                          mb_timer := Some (?h + length rest)\<rparr>)
                       (messageBuffers ?st)\<rparr>)"
    by (rule run_messages_burst)
       (use assms(1) assms(5) evs in \<open>simp_all add: update_conv'\<close>)
  moreover have "last (t # map fst rest) = fst (last evs)"
    by (simp add: evs last_map)
  ultimately show ?thesis
    by (simp add: evs adv step)
qed

lemma within_quiet_take: "within_quiet ts \<Longrightarrow> within_quiet (take n ts)"
proof (induction ts arbitrary: n rule: within_quiet.induct)
  case (1 t1 t2 ts)
  show ?case
  proof (cases n)
    case 0
    then show ?thesis by simp
  next
    case (Suc m)
    note n = this
    show ?thesis
    proof (cases m)
      case 0
      with n show ?thesis by simp
    next
      case (Suc k)
      with n "1.prems" "1.IH" [of "Suc k"] show ?thesis by simp
    qed
  qed
qed (simp_all add: take_Cons')

text \<open>
  C2. With no timeout pending and no buffer under the key, a non-empty burst of lines for
  one target and sender, each arriving no earlier than and strictly within 1000 ms of the
  previous one, leads to exactly one delivery, once 1000 ms have passed since the last
  line; its text is all the lines in arrival order joined by newlines. Until then nothing
  is delivered. After each line of the burst exactly one timeout is pending: the one set
  by that line, due 1000 ms after it, the previous one having been cleared.
\<close>

theorem debounce_coalescing:
  assumes "currentState st = Some cs"
      and "timers st = []"
      and "map_of (messageBuffers st) (bufferKey target nk) = None"
      and "evs \<noteq> []"
      and "within_quiet (map fst evs)"
  shows "(fst (last evs) + MESSAGE_BUFFER_DELAY_MS \<le> finish \<longrightarrow>
           run_until target nk evs finish st =
             Inr (st\<lparr>timers_made := timers_made st + length evs,
                     sent := sent st @
                   [if target = nick cs
                    then SendUserMessage
                           (''IRC DM from '' @ nk @ '': '' @ join_with newline (map snd evs)) ''steer''
                    else SendMessage
                           \<lparr>customType = ''irc_channel_message'',
                            content = ''['' @ target @ ''] '' @ nk @ '': ''
                                      @ join_with newline (map snd evs),
                            display = True,
                            msg_details = ChannelMessageDetails target nk
                                            (join_with newline (map snd evs))\<rparr>
                           (str_includes (join_with newline (map snd evs)) (''@'' @ nick cs))]\<rparr>))
       \<and> (finish < fst (last evs) + MESSAGE_BUFFER_DELAY_MS \<longrightarrow>
           run_until target nk evs finish st = run_messages target nk evs st)
       \<and> (\<forall>n. 0 < n \<and> n \<le> length evs \<longrightarrow>
            run_messages target nk (take n evs) st =
              Inr (st\<lparr>timers := [\<lparr>tid = timers_made st + n - 1,
                                    due = fst (evs ! (n - 1)) + MESSAGE_BUFFER_DELAY_MS,
                                    callback = FlushMessage (bufferKey target nk)
                                                 (target = nick cs)\<rparr>],
                      timers_made := timers_made st + n,
                      messageBuffers :=
                        AList.update (bufferKey target nk)
                          \<lparr>mb_nick = nk, mb_target = target, messages = map snd (take n evs),
                           mb_timer = Some (timers_made st + n - 1)\<rparr>
                          (messageBuffers st)\<rparr>))"
proof (intro conjI impI allI)
  let ?key = "bufferKey target nk"
  let ?b = "\<lparr>mb_nick = nk, mb_target = target, messages = map snd evs,
             mb_timer = Some (timers_made st + length evs - 1)\<rparr>"
  let ?tm = "\<lparr>tid = timers_made st + length evs - 1,
              due = fst (last evs) + MESSAGE_BUFFER_DELAY_MS,
              callback = FlushMessage ?key (target = nick cs)\<rparr>"
  let ?st = "st\<lparr>timers := [?tm], timers_made := timers_made st + length evs,
                messageBuffers := AList.update ?key ?b (messageBuffers st)\<rparr>"
  have run: "run_messages target nk evs st = Inr ?st"
    by (rule run_messages_fresh [OF assms])
  have ne: "map snd evs \<noteq> []" using assms(4) by simp
  have absent: "AList.delete ?key (messageBuffers st) = messageBuffers st"
    using assms(3) by (simp add: map_of_eq_None_iff)
  {
    assume late: "fst (last evs) + MESSAGE_BUFFER_DELAY_MS \<le> finish"
    let ?text = "join_with newline (map snd evs)"
    let ?unit = "if target = nick cs
                    then SendUserMessage (''IRC DM from '' @ nk @ '': '' @ ?text) ''steer''
                    else SendMessage
                           \<lparr>customType = ''irc_channel_message'',
                            content = ''['' @ target @ ''] '' @ nk @ '': '' @ ?text,
                            display = True,
                            msg_details = ChannelMessageDetails target nk ?text\<rparr>
                           (str_includes ?text (''@'' @ nick cs))"
    have adv: "advance finish ?st = fire ?tm ?st"
      by (rule advance_due) (use late in simp_all)
    have fired: "fire ?tm ?st =
                   Inr (st\<lparr>timers_made := timers_made st + length evs, sent := sent st @ [?unit]\<rparr>)"
    proof (cases "target = nick cs")
      case True
      then show ?thesis
        using ne assms(2) absent
        by (simp add: fire_def flushBuffer_def Let_def update_conv' delete_update_same)
    next
      case False
      then show ?thesis
        using ne assms(1) assms(2) absent
        by (simp add: fire_def flushBuffer_def Let_def update_conv' delete_update_same)
    qed
    show "run_until target nk evs finish st =
             Inr (st\<lparr>timers_made := timers_made st + length evs, sent := sent st @ [?unit]\<rparr>)"
      by (simp only: run_until_def run adv fired sum.case)
  }
  {
    assume early: "finish < fst (last evs) + MESSAGE_BUFFER_DELAY_MS"
    have "advance finish ?st = Inr ?st"
      by (rule advance_not_due [where tm = ?tm]) (use early in simp_all)
    then show "run_until target nk evs finish st = run_messages target nk evs st"
      by (simp add: run_until_def run)
  }
  {
    fix n assume n: "0 < n \<and> n \<le> length evs"
    have "run_messages target nk (take n evs) st =
           Inr (st\<lparr>timers := [\<lparr>tid = timers_made st + length (take n evs) - 1,
                                 due = fst (last (take n evs)) + MESSAGE_BUFFER_DELAY_MS,
                                 callback = FlushMessage ?key (target = nick cs)\<rparr>],
                   timers_made := timers_made st + length (take n evs),
                   messageBuffers :=
                     AList.update ?key
                       \<lparr>mb_nick = nk, mb_target = target, messages = map snd (take n evs),
                        mb_timer = Some (timers_made st + length (take n evs) - 1)\<rparr>
                       (messageBuffers st)\<rparr>)"
    proof (rule run_messages_fresh [OF assms(1) assms(2) assms(3)])
      show "take n evs \<noteq> []" using n assms(4) by auto
      show "within_quiet (map fst (take n evs))"
        using within_quiet_take [OF assms(5), of n] by (simp add: take_map)
    qed
    moreover have "last (take n evs) = evs ! (n - 1)"
    proof -
      have "take n evs \<noteq> []" using n assms(4) by auto
      then have "last (take n evs) = take n evs ! (length (take n evs) - 1)"
        by (rule last_conv_nth)
      also have "length (take n evs) = n" using n by simp
      also have "take n evs ! (n - 1) = evs ! (n - 1)" using n by simp
      finally show ?thesis .
    qed
    moreover have "length (take n evs) = n" using n by simp
    ultimately show "run_messages target nk (take n evs) st =
              Inr (st\<lparr>timers := [\<lparr>tid = timers_made st + n - 1,
                                    due = fst (evs ! (n - 1)) + MESSAGE_BUFFER_DELAY_MS,
                                    callback = FlushMessage ?key (target = nick cs)\<rparr>],
                      timers_made := timers_made st + n,
                      messageBuffers :=
                        AList.update ?key
                          \<lparr>mb_nick = nk, mb_target = target, messages = map snd (take n evs),
                           mb_timer = Some (timers_made st + n - 1)\<rparr>
                          (messageBuffers st)\<rparr>)"
      by simp
  }
qed

theorem debounce_coalescing_witness:
  "currentState connected_state = Some (alice_session\<lparr>connected := True\<rparr>)
   \<and> timers connected_state = []
   \<and> map_of (messageBuffers connected_state) (bufferKey ''#general'' ''bob'') = None
   \<and> [(0, ''hi''), (400, ''there'')] \<noteq> []
   \<and> within_quiet (map fst [(0, ''hi''), (400::nat, ''there'')])
   \<and> run_until ''#general'' ''bob'' [(0, ''hi''), (400, ''there'')] 1400 connected_state =
       Inr (connected_state
             \<lparr>timers_made := 2,
              sent := [SendMessage
                        \<lparr>customType = ''irc_channel_message'',
                         content = ''[#general] bob: hi'' @ newline @ ''there'', display = True,
                         msg_details = ChannelMessageDetails ''#general'' ''bob''
                                         (''hi'' @ newline @ ''there'')\<rparr>
                        False]\<rparr>)
   \<and> run_until ''#general'' ''bob'' [(0, ''hi''), (400, ''there'')] 1399 connected_state =
       run_messages ''#general'' ''bob'' [(0, ''hi''), (400, ''there'')] connected_state
   \<and> run_messages ''#general'' ''bob'' [(0, ''hi''), (400, ''there'')] connected_state =
       Inr (connected_state
             \<lparr>timers := [\<lparr>tid = 1, due = 1400,
                           callback = FlushMessage ''#general:bob'' False\<rparr>],
              timers_made := 2,
              messageBuffers :=
                [(''#general:bob'',
                  \<lparr>mb_nick = ''bob'', mb_target = ''#general'', messages = [''hi'', ''there''],
                   mb_timer = Some 1\<rparr>)]\<rparr>)"
proof -
  let ?cs = "alice_session\<lparr>connected := True\<rparr>"
  let ?evs = "[(0::nat, ''hi''), (400, ''there'')]"
  note f = connected_state_fields
  have b: "map_of (messageBuffers connected_state) (bufferKey ''#general'' ''bob'') = None"
    by (simp add: f)
  have c: "?evs \<noteq> []" by simp
  have d: "within_quiet (map fst ?evs)" by (simp add: MESSAGE_BUFFER_DELAY_MS_def)
  have e: "nick ?cs = ''alice''" by (simp add: alice_session_def)
  note inst = debounce_coalescing [OF f(1) f(4) b c d]
  have late: "run_until ''#general'' ''bob'' ?evs 1400 connected_state =
       Inr (connected_state
             \<lparr>timers_made := 2,
              sent := [SendMessage
                        \<lparr>customType = ''irc_channel_message'',
                         content = ''[#general] bob: hi'' @ newline @ ''there'', display = True,
                         msg_details = ChannelMessageDetails ''#general'' ''bob''
                                         (''hi'' @ newline @ ''there'')\<rparr>
                        False]\<rparr>)"
    using inst [of 1400, THEN conjunct1]
    by (simp add: e f MESSAGE_BUFFER_DELAY_MS_def newline_def)
  have early: "run_until ''#general'' ''bob'' ?evs 1399 connected_state =
       run_messages ''#general'' ''bob'' ?evs connected_state"
    using inst [of 1399, THEN conjunct2, THEN conjunct1] by (simp add: MESSAGE_BUFFER_DELAY_MS_def)
  have all: "run_messages ''#general'' ''bob'' ?evs connected_state =
       Inr (connected_state
             \<lparr>timers := [\<lparr>tid = 1, due = 1400,
                           callback = FlushMessage ''#general:bob'' False\<rparr>],
              timers_made := 2,
              messageBuffers :=
                [(''#general:bob'',
                  \<lparr>mb_nick = ''bob'', mb_target = ''#general'', messages = [''hi'', ''there''],
                   mb_timer = Some 1\<rparr>)]\<rparr>)"
    using inst [of 0, THEN conjunct2, THEN conjunct2, THEN spec, of 2]
    by (simp add: e f bufferKey_def MESSAGE_BUFFER_DELAY_MS_def)
  show ?thesis
    using f(1) f(4) b c d late early all by simp
qed

text \<open>Recording or flushing under one key leaves the buffers of every other key alone.\<close>

lemma on_message_other_key:
  assumes "bufferKey target nk \<noteq> B"
  shows "map_of (messageBuffers (on_message now target nk msg st)) B = map_of (messageBuffers st) B"
    and "eventBuffers (on_message now target nk msg st) = eventBuffers st"
    and "sent (on_message now target nk msg st) = sent st"
proof -
  show "map_of (messageBuffers (on_message now target nk msg st)) B = map_of (messageBuffers st) B"
  proof (cases "currentState st")
    case None
    then show ?thesis by (simp add: on_message_def)
  next
    case (Some cs)
    show ?thesis using assms by (simp add: on_message_effect [OF Some] update_conv')
  qed
  show "eventBuffers (on_message now target nk msg st) = eventBuffers st"
  proof (cases "currentState st")
    case None
    then show ?thesis by (simp add: on_message_def)
  next
    case (Some cs)
    show ?thesis by (simp add: on_message_effect [OF Some])
  qed
  show "sent (on_message now target nk msg st) = sent st"
  proof (cases "currentState st")
    case None
    then show ?thesis by (simp add: on_message_def)
  next
    case (Some cs)
    show ?thesis by (simp add: on_message_effect [OF Some])
  qed
qed

lemma record_event_other_key:
  assumes "A \<noteq> B"
  shows "map_of (eventBuffers (record_event now A line st)) B = map_of (eventBuffers st) B"
    and "messageBuffers (record_event now A line st) = messageBuffers st"
    and "sent (record_event now A line st) = sent st"
  using assms by (simp_all add: record_event_effect update_conv')

lemma fire_other_key:
  assumes "fire tm st = Inr st'"
  shows "owner (callback tm) \<noteq> MessageTimer B \<Longrightarrow>
           map_of (messageBuffers st') B = map_of (messageBuffers st) B"
    and "owner (callback tm) \<noteq> EventTimer B \<Longrightarrow>
           map_of (eventBuffers st') B = map_of (eventBuffers st) B"
proof -
  show "map_of (messageBuffers st') B = map_of (messageBuffers st) B"
    if "owner (callback tm) \<noteq> MessageTimer B"
  proof (cases "callback tm")
    case (FlushMessage key is_dm)
    with that fire_effect(4) [OF assms FlushMessage] show ?thesis
      by (auto simp: delete_conv')
  next
    case (FlushEvent key)
    with fire_effect(5) [OF assms FlushEvent] show ?thesis by simp
  qed
  show "map_of (eventBuffers st') B = map_of (eventBuffers st) B"
    if "owner (callback tm) \<noteq> EventTimer B"
  proof (cases "callback tm")
    case (FlushMessage key is_dm)
    with fire_effect(4) [OF assms FlushMessage] show ?thesis by simp
  next
    case (FlushEvent key)
    with that fire_effect(5) [OF assms FlushEvent] show ?thesis
      by (auto simp: delete_conv')
  qed
qed

text \<open>
  C7. In a state that satisfies the bookkeeping invariant, for distinct keys \<open>A\<close> and \<open>B\<close>:
  recording a chat line under \<open>A\<close> leaves the buffer of \<open>B\<close> and the timeouts pending for
  \<open>B\<close> as they were, leaves all join/part buffers and their timeouts as they were, and
  delivers nothing; a timeout of \<open>A\<close> that fires leaves the buffer and the timeouts of \<open>B\<close>
  as they were. The same holds for the join/part buffers, for a join and for a part
  recorded under \<open>A\<close> and for a timeout of \<open>A\<close> that fires, which in turn leave the chat
  buffers and their timeouts alone.
\<close>

theorem debounce_isolation:
  assumes "timers_ok st" and "A \<noteq> B"
  shows "(bufferKey target nk = A \<longrightarrow>
            map_of (messageBuffers (on_message now target nk msg st)) B = map_of (messageBuffers st) B
            \<and> pending_for (MessageTimer B) (on_message now target nk msg st)
                = pending_for (MessageTimer B) st
            \<and> eventBuffers (on_message now target nk msg st) = eventBuffers st
            \<and> pending_for (EventTimer C) (on_message now target nk msg st)
                = pending_for (EventTimer C) st
            \<and> sent (on_message now target nk msg st) = sent st)
       \<and> (tm \<in> set (timers st) \<and> owner (callback tm) = MessageTimer A \<and> fire tm st = Inr st1 \<longrightarrow>
            map_of (messageBuffers st1) B = map_of (messageBuffers st) B
            \<and> pending_for (MessageTimer B) st1 = pending_for (MessageTimer B) st
            \<and> map_of (eventBuffers st1) C = map_of (eventBuffers st) C
            \<and> pending_for (EventTimer C) st1 = pending_for (EventTimer C) st)
       \<and> (map_of (eventBuffers (on_join hasUI user_nick now nk A st)) B = map_of (eventBuffers st) B
            \<and> pending_for (EventTimer B) (on_join hasUI user_nick now nk A st)
                = pending_for (EventTimer B) st
            \<and> messageBuffers (on_join hasUI user_nick now nk A st) = messageBuffers st
            \<and> pending_for (MessageTimer C) (on_join hasUI user_nick now nk A st)
                = pending_for (MessageTimer C) st
            \<and> sent (on_join hasUI user_nick now nk A st) = sent st)
       \<and> (map_of (eventBuffers (on_part user_nick now nk A st)) B = map_of (eventBuffers st) B
            \<and> pending_for (EventTimer B) (on_part user_nick now nk A st)
                = pending_for (EventTimer B) st
            \<and> messageBuffers (on_part user_nick now nk A st) = messageBuffers st
            \<and> pending_for (MessageTimer C) (on_part user_nick now nk A st)
                = pending_for (MessageTimer C) st
            \<and> sent (on_part user_nick now nk A st) = sent st)
       \<and> (tm' \<in> set (timers st) \<and> owner (callback tm') = EventTimer A \<and> fire tm' st = Inr st2 \<longrightarrow>
            map_of (eventBuffers st2) B = map_of (eventBuffers st) B
            \<and> pending_for (EventTimer B) st2 = pending_for (EventTimer B) st
            \<and> map_of (messageBuffers st2) C = map_of (messageBuffers st) C
            \<and> pending_for (MessageTimer C) st2 = pending_for (MessageTimer C) st)"
proof (intro conjI impI)
  assume key: "bufferKey target nk = A"
  with assms(2) have ne: "bufferKey target nk \<noteq> B" by simp
  show "map_of (messageBuffers (on_message now target nk msg st)) B = map_of (messageBuffers st) B"
    by (rule on_message_other_key(1) [OF ne])
  show "pending_for (MessageTimer B) (on_message now target nk msg st)
          = pending_for (MessageTimer B) st"
    by (rule pending_for_on_message [OF assms(1)]) (use ne in simp)
  show "eventBuffers (on_message now target nk msg st) = eventBuffers st"
    by (rule on_message_other_key(2) [OF ne])
  show "pending_for (EventTimer C) (on_message now target nk msg st) = pending_for (EventTimer C) st"
    by (rule pending_for_on_message [OF assms(1)]) simp
  show "sent (on_message now target nk msg st) = sent st"
    by (rule on_message_other_key(3) [OF ne])
next
  assume a: "tm \<in> set (timers st) \<and> owner (callback tm) = MessageTimer A \<and> fire tm st = Inr st1"
  then have pend: "tm \<in> set (timers st)" and own: "owner (callback tm) = MessageTimer A"
    and fired: "fire tm st = Inr st1" by simp_all
  show "map_of (messageBuffers st1) B = map_of (messageBuffers st) B"
    by (rule fire_other_key(1) [OF fired]) (use own assms(2) in simp)
  show "pending_for (MessageTimer B) st1 = pending_for (MessageTimer B) st"
    by (rule pending_for_fire [OF assms(1) pend fired]) (use own assms(2) in simp)
  show "map_of (eventBuffers st1) C = map_of (eventBuffers st) C"
    by (rule fire_other_key(2) [OF fired]) (use own in simp)
  show "pending_for (EventTimer C) st1 = pending_for (EventTimer C) st"
    by (rule pending_for_fire [OF assms(1) pend fired]) (use own in simp)
next
  show "map_of (eventBuffers (on_join hasUI user_nick now nk A st)) B = map_of (eventBuffers st) B"
    using record_event_other_key(1) [OF assms(2)] by (simp add: on_join_def)
  show "pending_for (EventTimer B) (on_join hasUI user_nick now nk A st)
          = pending_for (EventTimer B) st"
    using pending_for_record_event [OF assms(1), of "EventTimer B" A] assms(2)
    by (simp add: on_join_def)
  show "messageBuffers (on_join hasUI user_nick now nk A st) = messageBuffers st"
    using record_event_other_key(2) [OF assms(2)] by (simp add: on_join_def)
  show "pending_for (MessageTimer C) (on_join hasUI user_nick now nk A st)
          = pending_for (MessageTimer C) st"
    using pending_for_record_event [OF assms(1), of "MessageTimer C" A]
    by (simp add: on_join_def)
  show "sent (on_join hasUI user_nick now nk A st) = sent st"
    using record_event_other_key(3) [OF assms(2)] by (simp add: on_join_def)
next
  show "map_of (eventBuffers (on_part user_nick now nk A st)) B = map_of (eventBuffers st) B"
    using record_event_other_key(1) [OF assms(2)] by (simp add: on_part_def)
  show "pending_for (EventTimer B) (on_part user_nick now nk A st)
          = pending_for (EventTimer B) st"
    using pending_for_record_event [OF assms(1), of "EventTimer B" A] assms(2)
    by (simp add: on_part_def)
  show "messageBuffers (on_part user_nick now nk A st) = messageBuffers st"
    using record_event_other_key(2) [OF assms(2)] by (simp add: on_part_def)
  show "pending_for (MessageTimer C) (on_part user_nick now nk A st)
          = pending_for (MessageTimer C) st"
    using pending_for_record_event [OF assms(1), of "MessageTimer C" A]
    by (simp add: on_part_def)
  show "sent (on_part user_nick now nk A st) = sent st"
    using record_event_other_key(3) [OF assms(2)] by (simp add: on_part_def)
next
  assume a: "tm' \<in> set (timers st) \<and> owner (callback tm') = EventTimer A \<and> fire tm' st = Inr st2"
  then have pend: "tm' \<in> set (timers st)" and own: "owner (callback tm') = EventTimer A"
    and fired: "fire tm' st = Inr st2" by simp_all
  show "map_of (eventBuffers st2) B = map_of (eventBuffers st) B"
    by (rule fire_other_key(2) [OF fired]) (use own assms(2) in simp)
  show "pending_for (EventTimer B) st2 = pending_for (EventTimer B) st"
    by (rule pending_for_fire [OF assms(1) pend fired]) (use own assms(2) in simp)
  show "map_of (messageBuffers st2) C = map_of (messageBuffers st) C"
    by (rule fire_other_key(1) [OF fired]) (use own in simp)
  show "pending_for (MessageTimer C) st2 = pending_for (MessageTimer C) st"
    by (rule pending_for_fire [OF assms(1) pend fired]) (use own in simp)
qed

theorem debounce_isolation_witness:
  "timers_ok two_bursts \<and> ''#dev:bob'' \<noteq> ''#dev:carol'' \<and> bufferKey ''#dev'' ''bob'' = ''#dev:bob''
   \<and> map_of (messageBuffers (on_message 500 ''#dev'' ''bob'' ''again'' two_bursts)) ''#dev:carol''
       = Some \<lparr>mb_nick = ''carol'', mb_target = ''#dev'', messages = [''yo''], mb_timer = Some 1\<rparr>
   \<and> pending_for (MessageTimer ''#dev:carol'')
         (on_message 500 ''#dev'' ''bob'' ''again'' two_bursts)
       = [\<lparr>tid = 1, due = 1300, callback = FlushMessage ''#dev:carol'' False\<rparr>]
   \<and> fire \<lparr>tid = 0, due = 1000, callback = FlushMessage ''#dev:bob'' False\<rparr> two_bursts =
       Inr (two_bursts
             \<lparr>timers := [\<lparr>tid = 1, due = 1300, callback = FlushMessage ''#dev:carol'' False\<rparr>],
              sent := [SendMessage
                        \<lparr>customType = ''irc_channel_message'', content = ''[#dev] bob: hi'',
                         display = True,
                         msg_details = ChannelMessageDetails ''#dev'' ''bob'' ''hi''\<rparr> False],
              messageBuffers :=
                [(''#dev:carol'', \<lparr>mb_nick = ''carol'', mb_target = ''#dev'', messages = [''yo''],
                    mb_timer = Some 1\<rparr>)]\<rparr>)
   \<and> timers_ok two_joins \<and> ''#dev'' \<noteq> ''#ops''
   \<and> map_of (eventBuffers (on_join False ''alice'' 500 ''erin'' ''#dev'' two_joins)) ''#ops''
       = Some \<lparr>eb_channel = ''#ops'', events = [''dave joined #ops''], eb_timer = Some 1\<rparr>
   \<and> pending_for (EventTimer ''#ops'') (on_part ''alice'' 500 ''carol'' ''#dev'' two_joins)
       = [\<lparr>tid = 1, due = 2100, callback = FlushEvent ''#ops''\<rparr>]
   \<and> fire \<lparr>tid = 0, due = 2000, callback = FlushEvent ''#dev''\<rparr> two_joins =
       Inr (two_joins
             \<lparr>timers := [\<lparr>tid = 1, due = 2100, callback = FlushEvent ''#ops''\<rparr>],
              sent := [SendMessage
                        \<lparr>customType = ''irc_join_part'', content = ''carol joined #dev'',
                         display = True,
                         msg_details = JoinPartDetails ''#dev'' [''carol joined #dev'']\<rparr> False],
              eventBuffers :=
                [(''#ops'', \<lparr>eb_channel = ''#ops'', events = [''dave joined #ops''],
                    eb_timer = Some 1\<rparr>)]\<rparr>)"
proof -
  let ?bob_timer = "\<lparr>tid = 0, due = 1000, callback = FlushMessage ''#dev:bob'' False\<rparr>"
  let ?dev_timer = "\<lparr>tid = 0, due = 2000, callback = FlushEvent ''#dev''\<rparr>"
  let ?bob_flushed = "two_bursts
             \<lparr>timers := [\<lparr>tid = 1, due = 1300, callback = FlushMessage ''#dev:carol'' False\<rparr>],
              sent := [SendMessage
                        \<lparr>customType = ''irc_channel_message'', content = ''[#dev] bob: hi'',
                         display = True,
                         msg_details = ChannelMessageDetails ''#dev'' ''bob'' ''hi''\<rparr> False],
              messageBuffers :=
                [(''#dev:carol'', \<lparr>mb_nick = ''carol'', mb_target = ''#dev'', messages = [''yo''],
                    mb_timer = Some 1\<rparr>)]\<rparr>"
  let ?dev_flushed = "two_joins
             \<lparr>timers := [\<lparr>tid = 1, due = 2100, callback = FlushEvent ''#ops''\<rparr>],
              sent := [SendMessage
                        \<lparr>customType = ''irc_join_part'', content = ''carol joined #dev'',
                         display = True,
                         msg_details = JoinPartDetails ''#dev'' [''carol joined #dev'']\<rparr> False],
              eventBuffers :=
                [(''#ops'', \<lparr>eb_channel = ''#ops'', events = [''dave joined #ops''],
                    eb_timer = Some 1\<rparr>)]\<rparr>"
  have keys: "''#dev:bob'' \<noteq> ''#dev:carol''" "''#dev'' \<noteq> ''#ops''" by simp_all
  have key: "bufferKey ''#dev'' ''bob'' = ''#dev:bob''" by (simp add: bufferKey_def)
  note ok = timers_ok_two_bursts timers_ok_two_joins
  have f1: "fire ?bob_timer two_bursts = Inr ?bob_flushed"
    by (simp add: fire_def flushBuffer_def two_bursts_fields Let_def alice_session_def)
  have f2: "fire ?dev_timer two_joins = Inr ?dev_flushed"
    by (simp add: fire_def flushEventBuffer_def two_joins_fields Let_def)
  have c: "map_of (messageBuffers two_bursts) ''#dev:carol''
       = Some \<lparr>mb_nick = ''carol'', mb_target = ''#dev'', messages = [''yo''], mb_timer = Some 1\<rparr>"
    "pending_for (MessageTimer ''#dev:carol'') two_bursts
       = [\<lparr>tid = 1, due = 1300, callback = FlushMessage ''#dev:carol'' False\<rparr>]"
    by (simp_all add: two_bursts_fields pending_for_def)
  have d: "map_of (eventBuffers two_joins) ''#ops''
       = Some \<lparr>eb_channel = ''#ops'', events = [''dave joined #ops''], eb_timer = Some 1\<rparr>"
    "pending_for (EventTimer ''#ops'') two_joins
       = [\<lparr>tid = 1, due = 2100, callback = FlushEvent ''#ops''\<rparr>]"
    by (simp_all add: two_joins_fields pending_for_def)
  note chat = debounce_isolation [OF ok(1) keys(1), where target = "''#dev''" and nk = "''bob''"
      and now = 500 and msg = "''again''"]
  note joined = debounce_isolation [OF ok(2) keys(2), where hasUI = False
      and user_nick = "''alice''" and now = 500 and nk = "''erin''"]
  note parted = debounce_isolation [OF ok(2) keys(2), where user_nick = "''alice''"
      and now = 500 and nk = "''carol''"]
  have r1: "map_of (messageBuffers (on_message 500 ''#dev'' ''bob'' ''again'' two_bursts))
              ''#dev:carol'' = map_of (messageBuffers two_bursts) ''#dev:carol''"
    using chat [THEN conjunct1, THEN mp, OF key, THEN conjunct1] .
  have r2: "pending_for (MessageTimer ''#dev:carol'')
              (on_message 500 ''#dev'' ''bob'' ''again'' two_bursts)
            = pending_for (MessageTimer ''#dev:carol'') two_bursts"
    using chat [THEN conjunct1, THEN mp, OF key, THEN conjunct2, THEN conjunct1] .
  have r3: "map_of (eventBuffers (on_join False ''alice'' 500 ''erin'' ''#dev'' two_joins)) ''#ops''
              = map_of (eventBuffers two_joins) ''#ops''"
    using joined [THEN conjunct2, THEN conjunct2, THEN conjunct1, THEN conjunct1] .
  have r4: "pending_for (EventTimer ''#ops'') (on_part ''alice'' 500 ''carol'' ''#dev'' two_joins)
              = pending_for (EventTimer ''#ops'') two_joins"
    using parted [THEN conjunct2, THEN conjunct2, THEN conjunct2, THEN conjunct1,
        THEN conjunct2, THEN conjunct1] .
  show ?thesis
    unfolding r1 r2 r3 r4 c d using keys key ok f1 f2 by (intro conjI) simp_all
qed


section \<open>A burst among other pending timeouts\<close>

text \<open>
  The coalescing of a burst does not depend on the rest of the session being quiet. In any
  state that satisfies the bookkeeping invariant, with timeouts of other buffers pending
  and firing in between, the timeouts of the key that fire during the run are exactly one,
  the one set by the last line; the delivery of all the lines joined by newlines is made,
  and the buffer of the key is gone afterwards.
\<close>

lemma fire_total: "currentState st = Some cs \<Longrightarrow> \<exists>st'. fire tm st = Inr st'"
  by (auto simp: fire_def flushBuffer_def Let_def split: callback.splits option.splits)

lemma fire_sent: "fire tm st = Inr st' \<Longrightarrow> \<exists>xs. sent st' = sent st @ xs"
  by (auto simp: fire_def flushBuffer_def flushEventBuffer_def Let_def
      split: callback.splits option.splits if_splits)

lemma distinct_map_insort:
  "distinct (map g (insort_key f x xs)) = (g x \<notin> g ` set xs \<and> distinct (map g xs))"
  by (induct xs) (auto simp: set_insort_key)

lemma distinct_map_sort: "distinct (map g (sort_key f xs)) = distinct (map g xs)"
  by (induct xs) (simp_all add: distinct_map_insort)

lemma due_timers_subset: "set (due_timers t st) \<subseteq> set (timers st)"
  by (auto simp: due_timers_def)

lemma due_timers_distinct: "timers_ok st \<Longrightarrow> distinct (map tid (due_timers t st))"
  by (simp add: due_timers_def distinct_map_sort timers_ok_def distinct_map_filter)

lemma due_timers_for:
  "filter (\<lambda>tm. owner (callback tm) = r) (due_timers t st)
     = sort_key due (filter (\<lambda>tm. due tm \<le> t) (pending_for r st))"
proof -
  have "filter (\<lambda>tm. owner (callback tm) = r) (filter (\<lambda>tm. due tm \<le> t) (timers st))
        = filter (\<lambda>tm. due tm \<le> t) (filter (\<lambda>tm. owner (callback tm) = r) (timers st))"
    by (simp add: conj_commute)
  then show ?thesis
    by (simp add: due_timers_def pending_for_def filter_sort)
qed

text \<open>Timeouts of other buffers that fire leave the buffer and the timeouts of a key alone.\<close>

lemma fire_all_others:
  assumes "timers_ok st" and "currentState st = Some cs"
      and "set tms \<subseteq> set (timers st)" and "distinct (map tid tms)"
      and "\<forall>tm \<in> set tms. owner (callback tm) \<noteq> MessageTimer key"
  shows "\<exists>st'. fire_all tms st = Inr st' \<and> timers_ok st' \<and> currentState st' = Some cs
            \<and> map_of (messageBuffers st') key = map_of (messageBuffers st) key
            \<and> pending_for (MessageTimer key) st' = pending_for (MessageTimer key) st
            \<and> (\<exists>xs. sent st' = sent st @ xs)"
  using assms
proof (induction tms arbitrary: st)
  case Nil
  then show ?case by simp
next
  case (Cons tm tms)
  from Cons.prems(3) have pend: "tm \<in> set (timers st)" by simp
  from Cons.prems(5) have other: "owner (callback tm) \<noteq> MessageTimer key" by simp
  obtain st1 where fired: "fire tm st = Inr st1"
    using fire_total [OF Cons.prems(2)] by blast
  have ok1: "timers_ok st1" by (rule timers_ok_fire [OF Cons.prems(1) pend fired])
  have cur1: "currentState st1 = Some cs"
    using fire_effect(3) [OF fired] Cons.prems(2) by simp
  have sub1: "set tms \<subseteq> set (timers st1)"
  proof
    fix x assume x: "x \<in> set tms"
    with Cons.prems(3) have "x \<in> set (timers st)" by auto
    moreover from x Cons.prems(4) have "tid x \<noteq> tid tm" by (auto simp: image_iff)
    ultimately show "x \<in> set (timers st1)" by (simp add: fire_effect(1) [OF fired])
  qed
  have buf1: "map_of (messageBuffers st1) key = map_of (messageBuffers st) key"
    by (rule fire_other_key(1) [OF fired other])
  have pend1: "pending_for (MessageTimer key) st1 = pending_for (MessageTimer key) st"
    by (rule pending_for_fire [OF Cons.prems(1) pend fired]) (use other in simp)
  obtain xs1 where sent1: "sent st1 = sent st @ xs1"
    using fire_sent [OF fired] by blast
  from Cons.IH [OF ok1 cur1 sub1] Cons.prems(4,5)
  obtain st' xs where "fire_all tms st1 = Inr st'" "timers_ok st'" "currentState st' = Some cs"
    "map_of (messageBuffers st') key = map_of (messageBuffers st1) key"
    "pending_for (MessageTimer key) st' = pending_for (MessageTimer key) st1"
    "sent st' = sent st1 @ xs"
    by auto
  then show ?case
    using fired buf1 pend1 sent1 by simp
qed

lemma advance_others:
  assumes "timers_ok st" and "currentState st = Some cs"
      and "\<forall>tm \<in> set (pending_for (MessageTimer key) st). t < due tm"
  shows "\<exists>st'. advance t st = Inr st' \<and> timers_ok st' \<and> currentState st' = Some cs
            \<and> map_of (messageBuffers st') key = map_of (messageBuffers st) key
            \<and> pending_for (MessageTimer key) st' = pending_for (MessageTimer key) st
            \<and> (\<exists>xs. sent st' = sent st @ xs)"
    and "filter (\<lambda>tm. owner (callback tm) = MessageTimer key) (due_timers t st) = []"
proof -
  have none: "\<forall>tm \<in> set (due_timers t st). owner (callback tm) \<noteq> MessageTimer key"
  proof
    fix tm assume "tm \<in> set (due_timers t st)"
    then have "tm \<in> set (timers st)" and "due tm \<le> t" by (auto simp: due_timers_def)
    with assms(3) show "owner (callback tm) \<noteq> MessageTimer key"
      by (auto simp: pending_for_def)
  qed
  show "\<exists>st'. advance t st = Inr st' \<and> timers_ok st' \<and> currentState st' = Some cs
            \<and> map_of (messageBuffers st') key = map_of (messageBuffers st) key
            \<and> pending_for (MessageTimer key) st' = pending_for (MessageTimer key) st
            \<and> (\<exists>xs. sent st' = sent st @ xs)"
    unfolding advance_def
    by (rule fire_all_others [OF assms(1,2) due_timers_subset due_timers_distinct [OF assms(1)] none])
  show "filter (\<lambda>tm. owner (callback tm) = MessageTimer key) (due_timers t st) = []"
    using none by (simp add: filter_empty_conv)
qed

lemma pending_for_on_message_own:
  assumes "currentState st = Some cs"
  shows "pending_for (MessageTimer (bufferKey target nk)) (on_message now target nk msg st) =
           filter (\<lambda>tm. Some (tid tm) \<noteq> handle_of st (MessageTimer (bufferKey target nk)))
             (pending_for (MessageTimer (bufferKey target nk)) st)
           @ [\<lparr>tid = timers_made st, due = now + MESSAGE_BUFFER_DELAY_MS,
               callback = FlushMessage (bufferKey target nk) (target = nick cs)\<rparr>]"
  by (simp add: pending_for_def on_message_effect [OF assms] conj_commute)

text \<open>A burst continuing a buffer, with timeouts of other buffers pending.\<close>

lemma run_messages_burst_among_others:
  assumes "timers_ok st" and "currentState st = Some cs"
      and "map_of (messageBuffers st) (bufferKey target nk) = Some b"
      and "mb_timer b = Some h"
      and "pending_for (MessageTimer (bufferKey target nk)) st =
             [\<lparr>tid = h, due = t0 + MESSAGE_BUFFER_DELAY_MS,
               callback = FlushMessage (bufferKey target nk) (target = nick cs)\<rparr>]"
      and "within_quiet (t0 # map fst evs)"
  shows "\<exists>st' h'. run_messages target nk evs st = Inr st' \<and> timers_ok st'
            \<and> currentState st' = Some cs
            \<and> map_of (messageBuffers st') (bufferKey target nk) =
                Some (b\<lparr>messages := messages b @ map snd evs, mb_timer := Some h'\<rparr>)
            \<and> pending_for (MessageTimer (bufferKey target nk)) st' =
                [\<lparr>tid = h', due = last (t0 # map fst evs) + MESSAGE_BUFFER_DELAY_MS,
                  callback = FlushMessage (bufferKey target nk) (target = nick cs)\<rparr>]
            \<and> filter (\<lambda>tm. owner (callback tm) = MessageTimer (bufferKey target nk))
                 (run_fired target nk evs st) = []"
  using assms
proof (induction evs arbitrary: st b h t0)
  case Nil
  have "b\<lparr>messages := messages b, mb_timer := Some h\<rparr> = b"
    using Nil.prems(4) by simp
  with Nil.prems show ?case by simp
next
  case (Cons ev evs)
  obtain t msg where ev: "ev = (t, msg)" by (cases ev)
  let ?key = "bufferKey target nk"
  let ?r = "MessageTimer ?key"
  from Cons.prems(6) ev have t: "t < t0 + MESSAGE_BUFFER_DELAY_MS"
    and rest: "within_quiet (t # map fst evs)" by simp_all
  have notdue: "\<forall>tm \<in> set (pending_for ?r st). t < due tm"
    using Cons.prems(5) t by simp
  obtain st1 where adv: "advance t st = Inr st1" and ok1: "timers_ok st1"
    and cur1: "currentState st1 = Some cs"
    and buf1: "map_of (messageBuffers st1) ?key = map_of (messageBuffers st) ?key"
    and pend1: "pending_for ?r st1 = pending_for ?r st"
    using advance_others(1) [OF Cons.prems(1,2) notdue] by blast
  have quiet1: "filter (\<lambda>tm. owner (callback tm) = ?r) (due_timers t st) = []"
    by (rule advance_others(2) [OF Cons.prems(1,2) notdue])
  let ?st2 = "on_message t target nk msg st1"
  let ?b2 = "b\<lparr>messages := messages b @ [msg], mb_timer := Some (timers_made st1)\<rparr>"
  have ok2: "timers_ok ?st2" by (rule timers_ok_on_message [OF ok1])
  have cur2: "currentState ?st2 = Some cs"
    by (simp add: on_message_effect [OF cur1] cur1)
  have buf2: "map_of (messageBuffers ?st2) ?key = Some ?b2"
    using buf1 Cons.prems(3) by (simp add: on_message_effect [OF cur1] update_conv')
  have h1: "handle_of st1 ?r = Some h"
    using buf1 Cons.prems(3,4) by simp
  have pend2: "pending_for ?r ?st2 =
                 [\<lparr>tid = timers_made st1, due = t + MESSAGE_BUFFER_DELAY_MS,
                   callback = FlushMessage ?key (target = nick cs)\<rparr>]"
    unfolding pending_for_on_message_own [OF cur1] pend1 Cons.prems(5) h1 by simp
  have hb2: "mb_timer ?b2 = Some (timers_made st1)" by simp
  from Cons.IH [OF ok2 cur2 buf2 hb2 pend2 rest]
  obtain st' h' where run: "run_messages target nk evs ?st2 = Inr st'" and "timers_ok st'"
    and "currentState st' = Some cs"
    and "map_of (messageBuffers st') ?key =
           Some (?b2\<lparr>messages := messages ?b2 @ map snd evs, mb_timer := Some h'\<rparr>)"
    and "pending_for ?r st' =
           [\<lparr>tid = h', due = last (t # map fst evs) + MESSAGE_BUFFER_DELAY_MS,
             callback = FlushMessage ?key (target = nick cs)\<rparr>]"
    and "filter (\<lambda>tm. owner (callback tm) = ?r) (run_fired target nk evs ?st2) = []"
    by blast
  then show ?case
    using adv quiet1 by (auto simp: ev)
qed

lemma run_messages_fresh_among_others:
  assumes "timers_ok st" and "currentState st = Some cs"
      and "map_of (messageBuffers st) (bufferKey target nk) = None"
      and "evs \<noteq> []" and "within_quiet (map fst evs)"
  shows "\<exists>st' h'. run_messages target nk evs st = Inr st' \<and> timers_ok st'
            \<and> currentState st' = Some cs
            \<and> map_of (messageBuffers st') (bufferKey target nk) =
                Some \<lparr>mb_nick = nk, mb_target = target, messages = map snd evs,
                      mb_timer = Some h'\<rparr>
            \<and> pending_for (MessageTimer (bufferKey target nk)) st' =
                [\<lparr>tid = h', due = fst (last evs) + MESSAGE_BUFFER_DELAY_MS,
                  callback = FlushMessage (bufferKey target nk) (target = nick cs)\<rparr>]
            \<and> filter (\<lambda>tm. owner (callback tm) = MessageTimer (bufferKey target nk))
                 (run_fired target nk evs st) = []"
proof -
  obtain t msg rest where evs: "evs = (t, msg) # rest"
    using assms(4) by (cases evs) auto
  let ?key = "bufferKey target nk"
  let ?r = "MessageTimer ?key"
  have none: "pending_for ?r st = []"
  proof -
    have "owner (callback tm) \<noteq> ?r" if "tm \<in> set (timers st)" for tm
    proof
      assume "owner (callback tm) = ?r"
      moreover from assms(1) that have "handle_of st (owner (callback tm)) = Some (tid tm)"
        by (simp add: timers_ok_def)
      ultimately show False using assms(3) by simp
    qed
    then show ?thesis by (simp add: pending_for_def filter_empty_conv)
  qed
  then have notdue: "\<forall>tm \<in> set (pending_for ?r st). t < due tm" by simp
  obtain st1 where adv: "advance t st = Inr st1" and ok1: "timers_ok st1"
    and cur1: "currentState st1 = Some cs"
    and buf1: "map_of (messageBuffers st1) ?key = map_of (messageBuffers st) ?key"
    and pend1: "pending_for ?r st1 = pending_for ?r st"
    using advance_others(1) [OF assms(1,2) notdue] by blast
  have quiet1: "filter (\<lambda>tm. owner (callback tm) = ?r) (due_timers t st) = []"
    by (rule advance_others(2) [OF assms(1,2) notdue])
  let ?st2 = "on_message t target nk msg st1"
  let ?b2 = "\<lparr>mb_nick = nk, mb_target = target, messages = [msg],
              mb_timer = Some (timers_made st1)\<rparr>"
  have ok2: "timers_ok ?st2" by (rule timers_ok_on_message [OF ok1])
  have cur2: "currentState ?st2 = Some cs"
    by (simp add: on_message_effect [OF cur1] cur1)
  have buf2: "map_of (messageBuffers ?st2) ?key = Some ?b2"
    using buf1 assms(3) by (simp add: on_message_effect [OF cur1] update_conv')
  have pend2: "pending_for ?r ?st2 =
                 [\<lparr>tid = timers_made st1, due = t + MESSAGE_BUFFER_DELAY_MS,
                   callback = FlushMessage ?key (target = nick cs)\<rparr>]"
    unfolding pending_for_on_message_own [OF cur1] pend1 none by simp
  have hb2: "mb_timer ?b2 = Some (timers_made st1)" by simp
  have rest: "within_quiet (t # map fst rest)" using assms(5) evs by simp
  from run_messages_burst_among_others [OF ok2 cur2 buf2 hb2 pend2 rest]
  obtain st' h' where run: "run_messages target nk rest ?st2 = Inr st'" and "timers_ok st'"
    and "currentState st' = Some cs"
    and "map_of (messageBuffers st') ?key =
           Some (?b2\<lparr>messages := messages ?b2 @ map snd rest, mb_timer := Some h'\<rparr>)"
    and "pending_for ?r st' =
           [\<lparr>tid = h', due = last (t # map fst rest) + MESSAGE_BUFFER_DELAY_MS,
             callback = FlushMessage ?key (target = nick cs)\<rparr>]"
    and "filter (\<lambda>tm. owner (callback tm) = ?r) (run_fired target nk rest ?st2) = []"
    by blast
  moreover have "last (t # map fst rest) = fst (last evs)"
    by (simp add: evs last_map)
  ultimately show ?thesis
    using adv quiet1 by (auto simp: evs)
qed

text \<open>The flush of a key among the timeouts of other buffers that are due with it.\<close>

lemma fire_all_with_key:
  assumes "timers_ok st" and "currentState st = Some cs"
      and "set tms \<subseteq> set (timers st)" and "distinct (map tid tms)"
      and "filter (\<lambda>tm. owner (callback tm) = MessageTimer key) tms = [tmk]"
      and "callback tmk = FlushMessage key is_dm"
      and "map_of (messageBuffers st) key = Some b" and "messages b \<noteq> []"
  shows "\<exists>st'. fire_all tms st = Inr st'
            \<and> (if is_dm
                then SendUserMessage
                       (''IRC DM from '' @ mb_nick b @ '': '' @ join_with newline (messages b))
                       ''steer''
                else SendMessage
                       \<lparr>customType = ''irc_channel_message'',
                        content = ''['' @ mb_target b @ ''] '' @ mb_nick b @ '': ''
                                  @ join_with newline (messages b),
                        display = True,
                        msg_details = ChannelMessageDetails (mb_target b) (mb_nick b)
                                        (join_with newline (messages b))\<rparr>
                       (str_includes (join_with newline (messages b)) (''@'' @ nick cs)))
                \<in> set (sent st')
            \<and> map_of (messageBuffers st') key = None"
  using assms(1,2,3,4,5,7)
proof (induction tms arbitrary: st)
  case Nil
  then show ?case by simp
next
  case (Cons tm tms)
  let ?unit = "if is_dm
                then SendUserMessage
                       (''IRC DM from '' @ mb_nick b @ '': '' @ join_with newline (messages b))
                       ''steer''
                else SendMessage
                       \<lparr>customType = ''irc_channel_message'',
                        content = ''['' @ mb_target b @ ''] '' @ mb_nick b @ '': ''
                                  @ join_with newline (messages b),
                        display = True,
                        msg_details = ChannelMessageDetails (mb_target b) (mb_nick b)
                                        (join_with newline (messages b))\<rparr>
                       (str_includes (join_with newline (messages b)) (''@'' @ nick cs))"
  from Cons.prems(3) have pend: "tm \<in> set (timers st)" by simp
  obtain st1 where fired: "fire tm st = Inr st1"
    using fire_total [OF Cons.prems(2)] by blast
  have ok1: "timers_ok st1" by (rule timers_ok_fire [OF Cons.prems(1) pend fired])
  have cur1: "currentState st1 = Some cs"
    using fire_effect(3) [OF fired] Cons.prems(2) by simp
  have sub1: "set tms \<subseteq> set (timers st1)"
  proof
    fix x assume x: "x \<in> set tms"
    with Cons.prems(3) have "x \<in> set (timers st)" by auto
    moreover from x Cons.prems(4) have "tid x \<noteq> tid tm" by (auto simp: image_iff)
    ultimately show "x \<in> set (timers st1)" by (simp add: fire_effect(1) [OF fired])
  qed
  from Cons.prems(4) have dist1: "distinct (map tid tms)" by simp
  show ?case
  proof (cases "owner (callback tm) = MessageTimer key")
    case True
    with Cons.prems(5) have tm: "tm = tmk"
      and none: "filter (\<lambda>tm. owner (callback tm) = MessageTimer key) tms = []"
      by simp_all
    have st1: "st1 = st\<lparr>timers := filter (\<lambda>x. tid x \<noteq> tid tm) (timers st),
                        sent := sent st @ [?unit],
                        messageBuffers := AList.delete key (messageBuffers st)\<rparr>"
      using fired tm assms(6,8) Cons.prems(2,6)
      by (auto simp: fire_def flushBuffer_def Let_def)
    from none have others: "\<forall>x \<in> set tms. owner (callback x) \<noteq> MessageTimer key"
      by (simp add: filter_empty_conv)
    from fire_all_others [OF ok1 cur1 sub1 dist1 others]
    obtain st' xs where "fire_all tms st1 = Inr st'"
      and "map_of (messageBuffers st') key = map_of (messageBuffers st1) key"
      and "sent st' = sent st1 @ xs"
      by blast
    then show ?thesis
      using fired by (simp add: st1 delete_conv')
  next
    case False
    with Cons.prems(5) have rest: "filter (\<lambda>tm. owner (callback tm) = MessageTimer key) tms = [tmk]"
      by simp
    have buf1: "map_of (messageBuffers st1) key = Some b"
      using fire_other_key(1) [OF fired False] Cons.prems(6) by simp
    from Cons.IH [OF ok1 cur1 sub1 dist1 rest buf1]
    show ?thesis using fired by simp
  qed
qed

lemma debounce_coalescing_among_others:
  assumes "timers_ok st" and "currentState st = Some cs"
      and "map_of (messageBuffers st) (bufferKey target nk) = None"
      and "evs \<noteq> []" and "within_quiet (map fst evs)"
      and "fst (last evs) + MESSAGE_BUFFER_DELAY_MS \<le> finish"
  shows "\<exists>st' h. run_until target nk evs finish st = Inr st'
            \<and> filter (\<lambda>tm. owner (callback tm) = MessageTimer (bufferKey target nk))
                 (fired_until target nk evs finish st)
                = [\<lparr>tid = h, due = fst (last evs) + MESSAGE_BUFFER_DELAY_MS,
                    callback = FlushMessage (bufferKey target nk) (target = nick cs)\<rparr>]
            \<and> (if target = nick cs
                then SendUserMessage
                       (''IRC DM from '' @ nk @ '': '' @ join_with newline (map snd evs)) ''steer''
                else SendMessage
                       \<lparr>customType = ''irc_channel_message'',
                        content = ''['' @ target @ ''] '' @ nk @ '': ''
                                  @ join_with newline (map snd evs),
                        display = True,
                        msg_details = ChannelMessageDetails target nk
                                        (join_with newline (map snd evs))\<rparr>
                       (str_includes (join_with newline (map snd evs)) (''@'' @ nick cs)))
                \<in> set (sent st')
            \<and> map_of (messageBuffers st') (bufferKey target nk) = None"
proof -
  let ?key = "bufferKey target nk"
  let ?r = "MessageTimer ?key"
  from run_messages_fresh_among_others [OF assms(1-5)]
  obtain st1 h where run: "run_messages target nk evs st = Inr st1" and ok1: "timers_ok st1"
    and cur1: "currentState st1 = Some cs"
    and buf1: "map_of (messageBuffers st1) ?key =
                Some \<lparr>mb_nick = nk, mb_target = target, messages = map snd evs,
                      mb_timer = Some h\<rparr>"
    and pend1: "pending_for ?r st1 =
                [\<lparr>tid = h, due = fst (last evs) + MESSAGE_BUFFER_DELAY_MS,
                  callback = FlushMessage ?key (target = nick cs)\<rparr>]"
    and quiet: "filter (\<lambda>tm. owner (callback tm) = ?r) (run_fired target nk evs st) = []"
    by blast
  let ?tm = "\<lparr>tid = h, due = fst (last evs) + MESSAGE_BUFFER_DELAY_MS,
              callback = FlushMessage ?key (target = nick cs)\<rparr>"
  let ?b = "\<lparr>mb_nick = nk, mb_target = target, messages = map snd evs, mb_timer = Some h\<rparr>"
  have due: "filter (\<lambda>tm. owner (callback tm) = ?r) (due_timers finish st1) = [?tm]"
    unfolding due_timers_for pend1 using assms(6) by simp
  have ne: "messages ?b \<noteq> []" using assms(4) by simp
  have cb: "callback ?tm = FlushMessage ?key (target = nick cs)" by simp
  from fire_all_with_key [OF ok1 cur1 due_timers_subset due_timers_distinct [OF ok1] due cb buf1 ne]
  obtain st' where "fire_all (due_timers finish st1) st1 = Inr st'"
    and "(if target = nick cs
                then SendUserMessage
                       (''IRC DM from '' @ nk @ '': '' @ join_with newline (map snd evs)) ''steer''
                else SendMessage
                       \<lparr>customType = ''irc_channel_message'',
                        content = ''['' @ target @ ''] '' @ nk @ '': ''
                                  @ join_with newline (map snd evs),
                        display = True,
                        msg_details = ChannelMessageDetails target nk
                                        (join_with newline (map snd evs))\<rparr>
                       (str_includes (join_with newline (map snd evs)) (''@'' @ nick cs)))
                \<in> set (sent st')"
    and "map_of (messageBuffers st') ?key = None"
    by (cases "target = nick cs") auto
  then show ?thesis
    using run quiet due by (auto simp: run_until_def fired_until_def advance_def)
qed


section \<open>Profile resolution\<close>

text \<open>Names that \<open>Object.prototype\<close> does not define resolve as the lookups' guards intend.\<close>

lemma getResolvedProfile_own_names:
  assumes "name \<notin> set object_prototype_names"
  shows "profiles config name = None \<Longrightarrow> getResolvedProfile config name = Inr None"
    and "profiles config name = Some p \<Longrightarrow> server p \<notin> set object_prototype_names \<Longrightarrow>
         servers config (server p) = None \<Longrightarrow>
         getResolvedProfile config name =
           Inl (''Profile '' @ dquote @ name @ dquote @ '' references unknown server ''
                @ dquote @ server p @ dquote)"
    and "profiles config name = Some p \<Longrightarrow> servers config (server p) = Some s \<Longrightarrow>
         getResolvedProfile config name = Inr (Some (Own p, Own s))"
  using assms by (simp_all add: getResolvedProfile_def get_property_def Let_def)

text \<open>
  C9 fails on names that \<open>Object.prototype\<close> defines. With an empty configuration the
  profile name \<open>toString\<close> is not answered with \<open>null\<close>: the lookup yields the inherited
  function, and resolution throws, naming a server \<open>undefined\<close>. A profile whose server is
  \<open>constructor\<close>, with no such entry in the server mapping, resolves without an error, the
  inherited function standing in for the server.
\<close>

theorem getResolvedProfile_inherited_names:
  "getResolvedProfile \<lparr>servers = Map.empty, profiles = Map.empty\<rparr> ''toString'' =
     Inl (''Profile '' @ dquote @ ''toString'' @ dquote @ '' references unknown server ''
          @ dquote @ ''undefined'' @ dquote)
   \<and> getResolvedProfile
       \<lparr>servers = Map.empty,
        profiles = [''work'' \<mapsto> \<lparr>server = ''constructor'', prof_nick = ''alice'', username = None,
                       realname = None, prof_channels = [], nickservPass = None,
                       autoConnect = None, agentsFile = None\<rparr>]\<rparr> ''work'' =
     Inr (Some (Own \<lparr>server = ''constructor'', prof_nick = ''alice'', username = None,
                       realname = None, prof_channels = [], nickservPass = None,
                       autoConnect = None, agentsFile = None\<rparr>, Inherited ''constructor''))"
  by (simp add: getResolvedProfile_def get_property_def object_prototype_names_def Let_def)

end
